theory Spec2Isabelle
  imports Complex_Main "HOL-Library.Sublist" "HOL-Library.List_Lexorder"
begin

section \<open>Cell values\<close>

text \<open>
  A Python \<open>str\<close> is a sequence of Unicode code points, and that is how a string is
  kept here: the list of its code points, each the integer \<open>ord\<close> gives. \<open>py\<close> turns a
  literal of the theory into such a list. Lists of integers are ordered
  lexicographically, which is the order Python gives strings.
\<close>

type_synonym pystr = "int list"

definition py :: "string \<Rightarrow> pystr" where
  "py s = map of_char s"

text \<open>
  The values openpyxl hands out for a cell: \<open>None\<close> for an empty cell, a string, an
  integer, a float or a boolean. A finite float denotes a rational number, and Python
  compares numbers of different types by their exact value, so a float is modelled by
  the rational it denotes. The builtin \<open>round(x, 2)\<close> on floats is not part of the
  repository; every function that calls it takes it as the parameter \<open>round2\<close>.
\<close>

datatype pyval = PNone | PStr pystr | PInt int | PFloat rat | PBool bool

datatype py_error = AttributeError

text \<open>Truthiness, as tested by \<open>if c.value\<close>.\<close>

fun truthy :: "pyval \<Rightarrow> bool" where
  "truthy PNone = False"
| "truthy (PStr s) = (s \<noteq> [])"
| "truthy (PInt i) = (i \<noteq> 0)"
| "truthy (PFloat x) = (x \<noteq> 0)"
| "truthy (PBool b) = b"

text \<open>Python's \<open>==\<close>: integers, floats and booleans compare by numeric value.\<close>

fun py_num :: "pyval \<Rightarrow> rat option" where
  "py_num (PInt i) = Some (of_int i)"
| "py_num (PFloat x) = Some x"
| "py_num (PBool b) = Some (if b then 1 else 0)"
| "py_num PNone = None"
| "py_num (PStr s) = None"

definition py_eq :: "pyval \<Rightarrow> pyval \<Rightarrow> bool" where
  "py_eq a b =
     (case py_num a of
        Some x \<Rightarrow> (case py_num b of Some y \<Rightarrow> x = y | None \<Rightarrow> False)
      | None \<Rightarrow> (case py_num b of Some y \<Rightarrow> False | None \<Rightarrow> a = b))"

text \<open>\<open>x in xs\<close> and \<open>xs.index(x)\<close> on a list.\<close>

definition py_in :: "pyval \<Rightarrow> pyval list \<Rightarrow> bool" where
  "py_in x xs = list_ex (\<lambda>e. py_eq e x) xs"

text \<open>
  \<open>xs.index(x)\<close> is the position of the first element equal to \<open>x\<close>. It raises
  ValueError when there is none; the only call in the source is guarded by
  \<open>x in xs\<close> on the line before.
\<close>

definition py_index :: "pyval \<Rightarrow> pyval list \<Rightarrow> nat" where
  "py_index x xs = length (takeWhile (\<lambda>e. \<not> py_eq e x) xs)"

text \<open>
  \<open>str.strip()\<close> removes leading and trailing whitespace. The whitespace code points
  are the ones CPython lists: U+0009 to U+000D, U+001C to U+0020, U+0085, U+00A0, U+1680,
  U+2000 to U+200A, U+2028, U+2029, U+202F, U+205F and U+3000.
\<close>

definition is_space :: "int \<Rightarrow> bool" where
  "is_space n =
     ((9 \<le> n \<and> n \<le> 13) \<or> (28 \<le> n \<and> n \<le> 32) \<or> n = 133 \<or> n = 160 \<or> n = 5760 \<or>
      (8192 \<le> n \<and> n \<le> 8202) \<or> n = 8232 \<or> n = 8233 \<or> n = 8239 \<or> n = 8287 \<or> n = 12288)"

definition strip :: "pystr \<Rightarrow> pystr" where
  "strip s = rev (dropWhile is_space (rev (dropWhile is_space s)))"

text \<open>\<open>sub in s\<close> on strings: \<open>sub\<close> occurs as a contiguous substring.\<close>

fun contains :: "pystr \<Rightarrow> pystr \<Rightarrow> bool" where
  "contains sub [] = (sub = [])"
| "contains sub (c # cs) = (prefix sub (c # cs) \<or> contains sub cs)"

text \<open>
  \<open>label and "..." in str(label)\<close>. For a number or a boolean \<open>str\<close> gives digits,
  a sign, a point, an exponent or \<open>True\<close>/\<open>False\<close>/\<open>inf\<close>/\<open>nan\<close>, none
  of which contains either category label, so only strings can match.
\<close>

definition label_has :: "pystr \<Rightarrow> pyval \<Rightarrow> bool" where
  "label_has sub label = (case label of PStr s \<Rightarrow> s \<noteq> [] \<and> contains sub s | _ \<Rightarrow> False)"

section \<open>Sheets and workbooks\<close>

text \<open>
  A cell carries its value and the two style marks the pass sets: \<open>bold\<close> says the font
  is \<open>Font(bold=True)\<close>, \<open>thin\<close> says the border is the four-sided thin border.
  A worksheet is its grid of cells, addressed by (row, column) from 1, with the
  extent openpyxl reports as \<open>max_row\<close> and \<open>max_column\<close>. A cell never created
  reads as the empty cell. Reading a cell leaves the sheet as it is: the empty cell
  openpyxl creates on a read is seen by nothing that follows. Dates, merged ranges and
  number formats are outside the model.
\<close>

record cell =
  cval :: pyval
  bold :: bool
  thin :: bool

definition empty_cell :: cell where
  "empty_cell = \<lparr>cval = PNone, bold = False, thin = False\<rparr>"

record sheet =
  cells :: "nat \<times> nat \<Rightarrow> cell"
  max_row :: nat
  max_column :: nat

text \<open>
  Writing through \<open>ws.cell(row=r, column=c, ...)\<close> changes that one cell and extends
  the extent to cover it.
\<close>

definition set_cell :: "sheet \<Rightarrow> nat \<Rightarrow> nat \<Rightarrow> (cell \<Rightarrow> cell) \<Rightarrow> sheet" where
  "set_cell ws r c f =
     ws\<lparr>cells := (cells ws)((r, c) := f (cells ws (r, c))),
        max_row := max (max_row ws) r,
        max_column := max (max_column ws) c\<rparr>"

record workbook =
  sheetnames :: "pystr list"
  sheet_of :: "pystr \<Rightarrow> sheet"

section \<open>The per-sheet steps of \<open>populate_syscad_inputs\<close>\<close>

text \<open>
  \<open>[c.value for c in ws[r][3:] if c.value]\<close>: row \<open>r\<close> from column 4 to
  \<open>max_column\<close>, keeping the truthy values.
\<close>

definition header_tags :: "sheet \<Rightarrow> nat \<Rightarrow> pyval list" where
  "header_tags ws r = filter truthy (map (\<lambda>c. cval (cells ws (r, c))) [4..<Suc (max_column ws)])"

definition stream_unit_tags :: "sheet \<Rightarrow> pyval list" where
  "stream_unit_tags stream_ws = header_tags stream_ws 1"

definition master_unit_tags :: "sheet \<Rightarrow> pyval list" where
  "master_unit_tags master_ws = header_tags master_ws 3"

text \<open>
  The loop \<open>for i, tag in enumerate(stream_unit_tags)\<close> that writes the tags into
  row 3 of the master sheet, bold and bordered; \<open>i\<close> is the running index.
\<close>

fun write_unit_tags :: "nat \<Rightarrow> pyval list \<Rightarrow> sheet \<Rightarrow> sheet" where
  "write_unit_tags i [] master_ws = master_ws"
| "write_unit_tags i (tag # tags) master_ws =
     write_unit_tags (Suc i) tags
       (set_cell master_ws 3 (4 + i) (\<lambda>_. \<lparr>cval = tag, bold = True, thin = True\<rparr>))"

text \<open>
  The dictionary comprehension \<open>stream_tag_to_row\<close> over the rows from 3 to
  \<open>max_row\<close>: a truthy column-3 value is stripped and mapped to its row, a later row
  replacing an earlier one; \<open>.strip()\<close> on a truthy value that is not a string raises
  AttributeError.
\<close>

fun tag_rows :: "sheet \<Rightarrow> nat list \<Rightarrow> (pystr \<rightharpoonup> nat) \<Rightarrow> py_error + (pystr \<rightharpoonup> nat)" where
  "tag_rows ws [] acc = Inr acc"
| "tag_rows ws (r # rs) acc =
     (let v = cval (cells ws (r, 3)) in
      if truthy v then
        (case v of PStr s \<Rightarrow> tag_rows ws rs (acc(strip s \<mapsto> r)) | _ \<Rightarrow> Inl AttributeError)
      else tag_rows ws rs acc)"

definition stream_tag_to_row :: "sheet \<Rightarrow> py_error + (pystr \<rightharpoonup> nat)" where
  "stream_tag_to_row stream_ws = tag_rows stream_ws [3..<Suc (max_row stream_ws)] Map.empty"

text \<open>
  The scan that builds \<open>param_rows\<close>: the rows in order, the flag \<open>in_syscad\<close> and the
  dictionary built so far. \<open>break\<close> returns what has been built.
\<close>

fun scan_param_rows ::
  "sheet \<Rightarrow> nat list \<Rightarrow> bool \<Rightarrow> (pystr \<rightharpoonup> nat) \<Rightarrow> py_error + (pystr \<rightharpoonup> nat)" where
  "scan_param_rows ws [] in_syscad param_rows = Inr param_rows"
| "scan_param_rows ws (r # rs) in_syscad param_rows =
     (let label = cval (cells ws (r, 1));
          in_syscad = (if label_has (py ''SysCAD Inputs'') label then True else in_syscad)
      in if in_syscad then
           (if label_has (py ''Engineering Inputs'') label then Inr param_rows
            else
              (let pname = cval (cells ws (r, 2)) in
               if truthy pname then
                 (case pname of
                    PStr s \<Rightarrow> scan_param_rows ws rs in_syscad (param_rows(strip s \<mapsto> r))
                  | _ \<Rightarrow> Inl AttributeError)
               else scan_param_rows ws rs in_syscad param_rows))
         else scan_param_rows ws rs in_syscad param_rows)"

definition param_rows :: "sheet \<Rightarrow> py_error + (pystr \<rightharpoonup> nat)" where
  "param_rows master_ws = scan_param_rows master_ws [1..<Suc (max_row master_ws)] False Map.empty"

text \<open>The same scan in \<open>extract_syscad_params\<close> of the front end, which collects the names.\<close>

fun scan_params :: "sheet \<Rightarrow> nat list \<Rightarrow> bool \<Rightarrow> pystr list \<Rightarrow> py_error + pystr list" where
  "scan_params ws [] in_syscad params = Inr params"
| "scan_params ws (r # rs) in_syscad params =
     (let cell_val = cval (cells ws (r, 1));
          in_syscad = (if label_has (py ''SysCAD Inputs'') cell_val then True else in_syscad)
      in if in_syscad then
           (if label_has (py ''Engineering Inputs'') cell_val then Inr params
            else
              (let p = cval (cells ws (r, 2)) in
               if truthy p then
                 (case p of
                    PStr s \<Rightarrow> scan_params ws rs in_syscad (params @ [strip s])
                  | _ \<Rightarrow> Inl AttributeError)
               else scan_params ws rs in_syscad params))
         else scan_params ws rs in_syscad params)"

definition extract_syscad_params :: "sheet \<Rightarrow> py_error + pystr list" where
  "extract_syscad_params ws = scan_params ws [1..<Suc (max_row ws)] False []"

text \<open>\<open>round(val, 2) if isinstance(val, float) else val\<close>.\<close>

definition rounded :: "(rat \<Rightarrow> rat) \<Rightarrow> pyval \<Rightarrow> pyval" where
  "rounded round2 val = (case val of PFloat x \<Rightarrow> PFloat (round2 x) | _ \<Rightarrow> val)"

text \<open>
  One iteration of the inner loop \<open>for master_param, stream_tag in param_mapping.items()\<close>,
  for the master column offset \<open>col_off\<close> and the streamtable column \<open>stream_col\<close>.
\<close>

definition populate_pair ::
  "(rat \<Rightarrow> rat) \<Rightarrow> sheet \<Rightarrow> (pystr \<rightharpoonup> nat) \<Rightarrow> (pystr \<rightharpoonup> nat) \<Rightarrow> nat \<Rightarrow> nat \<Rightarrow>
   sheet \<Rightarrow> pystr \<times> pystr \<Rightarrow> sheet" where
  "populate_pair round2 stream_ws prs trs col_off stream_col master_ws pair =
     (case prs (fst pair) of
        None \<Rightarrow> master_ws
      | Some m_row \<Rightarrow>
          (case trs (snd pair) of
             None \<Rightarrow> master_ws
           | Some s_row \<Rightarrow>
               (let val = cval (cells stream_ws (s_row, stream_col));
                    master_ws =
                      (if val \<noteq> PNone then
                         set_cell master_ws m_row (col_off + 4)
                           (\<lambda>c. c\<lparr>cval := rounded round2 val, thin := True\<rparr>)
                       else master_ws);
                    stream_unit = cval (cells stream_ws (s_row, 2));
                    master_unit = cval (cells master_ws (m_row, 3))
                in if truthy stream_unit \<and> \<not> py_eq master_unit stream_unit then
                     set_cell master_ws m_row 3 (\<lambda>c. c\<lparr>cval := stream_unit, thin := True\<rparr>)
                   else master_ws)))"

text \<open>One iteration of the outer loop \<open>for col_off, unit_tag in enumerate(master_unit_tags)\<close>.\<close>

definition populate_column ::
  "(rat \<Rightarrow> rat) \<Rightarrow> sheet \<Rightarrow> (pystr \<rightharpoonup> nat) \<Rightarrow> (pystr \<rightharpoonup> nat) \<Rightarrow> pyval list \<Rightarrow>
   (pystr \<times> pystr) list \<Rightarrow> nat \<Rightarrow> pyval \<Rightarrow> sheet \<Rightarrow> sheet" where
  "populate_column round2 stream_ws prs trs stags param_mapping col_off unit_tag master_ws =
     (if \<not> py_in unit_tag stags then master_ws
      else foldl (populate_pair round2 stream_ws prs trs col_off (py_index unit_tag stags + 4))
             master_ws param_mapping)"

fun populate_values ::
  "(rat \<Rightarrow> rat) \<Rightarrow> sheet \<Rightarrow> (pystr \<rightharpoonup> nat) \<Rightarrow> (pystr \<rightharpoonup> nat) \<Rightarrow> pyval list \<Rightarrow>
   (pystr \<times> pystr) list \<Rightarrow> nat \<Rightarrow> pyval list \<Rightarrow> sheet \<Rightarrow> sheet" where
  "populate_values round2 stream_ws prs trs stags param_mapping col_off [] master_ws = master_ws"
| "populate_values round2 stream_ws prs trs stags param_mapping col_off (unit_tag # mtags) master_ws =
     populate_values round2 stream_ws prs trs stags param_mapping (Suc col_off) mtags
       (populate_column round2 stream_ws prs trs stags param_mapping col_off unit_tag master_ws)"

text \<open>
  The body of \<open>for eq_type in common_sheets\<close> for one pair of sheets and that
  equipment's mapping (a dictionary: a list of pairs with distinct keys, in insertion
  order). An error leaves the function, so no sheet is returned.
\<close>

definition populate_sheet ::
  "(rat \<Rightarrow> rat) \<Rightarrow> sheet \<Rightarrow> sheet \<Rightarrow> (pystr \<times> pystr) list \<Rightarrow> py_error + sheet" where
  "populate_sheet round2 master_ws stream_ws param_mapping =
     (if param_mapping = [] then Inr master_ws
      else
        (let stags = stream_unit_tags stream_ws;
             master_ws = write_unit_tags 0 stags master_ws
         in case stream_tag_to_row stream_ws of
              Inl e \<Rightarrow> Inl e
            | Inr trs \<Rightarrow>
                (case param_rows master_ws of
                   Inl e \<Rightarrow> Inl e
                 | Inr prs \<Rightarrow>
                     Inr (populate_values round2 stream_ws prs trs stags param_mapping 0
                            (master_unit_tags master_ws) master_ws))))"

section \<open>The workbook level\<close>

text \<open>
  A Python set of sheet names is kept as the list of its elements; the order in which
  a set is iterated or turned into a list is not fixed by the language (it follows the
  hashes of the strings), so it is the parameter \<open>set_order\<close>, which returns the
  elements of a set in the order of iteration.
\<close>

definition master_minus_stream :: "workbook \<Rightarrow> workbook \<Rightarrow> pystr list" where
  "master_minus_stream master_wb stream_wb =
     filter (\<lambda>n. n \<notin> set (sheetnames stream_wb)) (remdups (sheetnames master_wb))"

definition common_sheets :: "workbook \<Rightarrow> workbook \<Rightarrow> pystr list" where
  "common_sheets master_wb stream_wb =
     filter (\<lambda>n. n \<in> set (sheetnames stream_wb)) (remdups (sheetnames master_wb))"

definition missing_sheets :: "(pystr list \<Rightarrow> pystr list) \<Rightarrow> workbook \<Rightarrow> workbook \<Rightarrow> pystr list" where
  "missing_sheets set_order master_wb stream_wb = set_order (master_minus_stream master_wb stream_wb)"

fun populate_sheets ::
  "(rat \<Rightarrow> rat) \<Rightarrow> workbook \<Rightarrow> (pystr \<rightharpoonup> (pystr \<times> pystr) list) \<Rightarrow> pystr list \<Rightarrow>
   workbook \<Rightarrow> py_error + workbook" where
  "populate_sheets round2 stream_wb mapping_dict [] master_wb = Inr master_wb"
| "populate_sheets round2 stream_wb mapping_dict (eq_type # rest) master_wb =
     (let param_mapping = (case mapping_dict eq_type of None \<Rightarrow> [] | Some pm \<Rightarrow> pm)
      in case populate_sheet round2 (sheet_of master_wb eq_type) (sheet_of stream_wb eq_type)
                param_mapping of
           Inl e \<Rightarrow> Inl e
         | Inr ws \<Rightarrow>
             populate_sheets round2 stream_wb mapping_dict rest
               (master_wb\<lparr>sheet_of := (sheet_of master_wb)(eq_type := ws)\<rparr>))"

definition populate_syscad_inputs ::
  "(rat \<Rightarrow> rat) \<Rightarrow> (pystr list \<Rightarrow> pystr list) \<Rightarrow> workbook \<Rightarrow> workbook \<Rightarrow>
   (pystr \<rightharpoonup> (pystr \<times> pystr) list) \<Rightarrow> py_error + (workbook \<times> pystr list)" where
  "populate_syscad_inputs round2 set_order master_wb stream_wb mapping_dict =
     (let missing = missing_sheets set_order master_wb stream_wb
      in case populate_sheets round2 stream_wb mapping_dict
                (set_order (common_sheets master_wb stream_wb)) master_wb of
           Inl e \<Rightarrow> Inl e
         | Inr wb \<Rightarrow> Inr (wb, missing))"

section \<open>Unit reconciliation as a function of the two unit strings\<close>

text \<open>
  What \<open>if stream_unit and master_unit != stream_unit\<close> leaves in the master unit cell,
  given the streamtable unit and the unit found in the master.
\<close>

definition unit_update :: "pyval \<Rightarrow> pyval \<Rightarrow> pyval" where
  "unit_update stream_unit master_unit =
     (if truthy stream_unit \<and> \<not> py_eq master_unit stream_unit then stream_unit else master_unit)"

section \<open>Example sheets\<close>

text \<open>
  Concrete sheets on which the functions above are evaluated. \<open>mk_sheet\<close> builds a
  sheet from the listed values, all cells unstyled. \<open>round_hundredths\<close> stands in for
  \<open>round(x, 2)\<close> in the examples: the nearest multiple of 1/100, a tie going to the
  even one.
\<close>

definition mk_sheet :: "((nat \<times> nat) \<times> pyval) list \<Rightarrow> nat \<Rightarrow> nat \<Rightarrow> sheet" where
  "mk_sheet vs mr mc =
     \<lparr>cells = (\<lambda>rc. case map_of vs rc of None \<Rightarrow> empty_cell
                       | Some v \<Rightarrow> \<lparr>cval = v, bold = False, thin = False\<rparr>),
      max_row = mr, max_column = mc\<rparr>"

definition round_hundredths :: "rat \<Rightarrow> rat" where
  "round_hundredths x =
     (let y = x * 100; f = \<lfloor>y\<rfloor>; d = y - of_int f
      in of_int (if d < 1/2 then f else if 1/2 < d then f + 1 else if even f then f else f + 1) / 100)"

definition ex_master :: sheet where
  "ex_master = mk_sheet
     [((3, 4), PStr (py ''X'')), ((3, 5), PStr (py ''Y'')),
      ((5, 1), PStr (py ''SysCAD Inputs'')),
      ((6, 2), PStr (py ''Flow Rate'')), ((6, 3), PStr (py ''kg/h'')), ((6, 4), PInt 1), ((6, 5), PInt 7),
      ((7, 1), PStr (py ''Engineering Inputs''))] 7 5"

definition ex_stream :: sheet where
  "ex_stream = mk_sheet
     [((1, 4), PStr (py ''A'')),
      ((3, 2), PStr (py ''m3/h'')), ((3, 3), PStr (py ''FT-101'')), ((3, 4), PFloat (12346 / 1000))] 3 4"

definition ex_mapping :: "(pystr \<times> pystr) list" where
  "ex_mapping = [((py ''Flow Rate''), (py ''FT-101'')), ((py ''Head''), (py ''FT-999''))]"

definition gap_stream :: sheet where
  "gap_stream = mk_sheet
     [((1, 4), PStr (py ''A'')), ((1, 6), PStr (py ''B'')),
      ((3, 2), PStr (py ''m3/h'')), ((3, 3), PStr (py ''FT-101'')), ((3, 4), PInt 2), ((3, 6), PInt 3)] 3 6"

definition untagged_stream :: sheet where
  "untagged_stream = mk_sheet [((3, 2), PStr (py ''m3/h'')), ((3, 3), PStr (py ''FT-101''))] 3 3"

definition dup_master :: sheet where
  "dup_master = mk_sheet
     [((1, 1), PStr (py ''SysCAD Inputs'')),
      ((2, 2), PStr (py ''Flow Rate'')), ((3, 2), PStr (py '' Flow Rate '')),
      ((4, 1), PStr (py ''Engineering Inputs''))] 4 2"

definition label_row_master :: sheet where
  "label_row_master = mk_sheet
     [((1, 1), PStr (py ''SysCAD Inputs'')), ((1, 2), PStr (py ''Flow Rate'')),
      ((2, 2), PStr (py ''Head'')),
      ((3, 1), PStr (py ''Engineering Inputs''))] 3 2"

definition dup_master_tail :: sheet where
  "dup_master_tail = mk_sheet
     [((1, 1), PStr (py ''SysCAD Inputs'')),
      ((2, 2), PStr (py ''Flow Rate'')), ((3, 2), PStr (160 # py ''Flow Rate '')),
      ((4, 1), PStr (py ''Engineering Inputs'')),
      ((5, 2), PStr (py ''Flow Rate'')), ((6, 2), PInt 5)] 6 2"

definition ex_master_wb :: workbook where
  "ex_master_wb = \<lparr>sheetnames = [(py ''Pump-101''), (py ''Pump-B''), (py ''Pump-A'')], sheet_of = (\<lambda>n. ex_master)\<rparr>"

definition ex_stream_wb :: workbook where
  "ex_stream_wb = \<lparr>sheetnames = [(py ''Pump-101'')], sheet_of = (\<lambda>n. ex_stream)\<rparr>"

definition ex_mapping_dict :: "pystr \<rightharpoonup> (pystr \<times> pystr) list" where
  "ex_mapping_dict = [(py ''Pump-101'') \<mapsto> ex_mapping]"

section \<open>Properties of the steps\<close>

subsection \<open>Cells, the header row\<close>

lemma cells_set_cell:
  "cells (set_cell ws r c f) rc = (if rc = (r, c) then f (cells ws (r, c)) else cells ws rc)"
  by (simp add: set_cell_def)

lemma max_row_set_cell: "max_row (set_cell ws r c f) = max (max_row ws) r"
  by (simp add: set_cell_def)

lemma max_column_set_cell: "max_column (set_cell ws r c f) = max (max_column ws) c"
  by (simp add: set_cell_def)

lemma cells_write_unit_tags:
  "cells (write_unit_tags i tags ws) (r, c) =
     (if r = 3 \<and> 4 + i \<le> c \<and> c < 4 + i + length tags
      then \<lparr>cval = tags ! (c - (4 + i)), bold = True, thin = True\<rparr>
      else cells ws (r, c))"
proof (induction tags arbitrary: i ws)
  case Nil
  then show ?case by auto
next
  case (Cons tag tags)
  show ?case
    using Cons.IH [of "Suc i" "set_cell ws 3 (4 + i) (\<lambda>_. \<lparr>cval = tag, bold = True, thin = True\<rparr>)"]
    by (auto simp add: cells_set_cell nth_Cons' Suc_diff_le)
qed

lemma max_row_write_unit_tags:
  "max_row (write_unit_tags i tags ws) = (if tags = [] then max_row ws else max (max_row ws) 3)"
  by (induction tags arbitrary: i ws) (auto simp add: max_row_set_cell)

lemma max_column_write_unit_tags:
  "max_column (write_unit_tags i tags ws) =
     (if tags = [] then max_column ws else max (max_column ws) (3 + i + length tags))"
  by (induction tags arbitrary: i ws) (auto simp add: max_column_set_cell)

lemma truthy_header_tags: "\<forall>t \<in> set (header_tags ws r). truthy t"
  by (simp add: header_tags_def)

lemma header_tags_write_unit_tags:
  assumes "\<forall>t \<in> set tags. truthy t"
  shows "header_tags (write_unit_tags 0 tags ws) 3 =
           tags @ filter truthy (map (\<lambda>c. cval (cells ws (3, c))) [4 + length tags..<Suc (max_column ws)])"
proof (cases "tags = []")
  case True
  then show ?thesis by (simp add: header_tags_def)
next
  case False
  let ?n = "length tags"
  let ?w = "write_unit_tags 0 tags ws"
  let ?mc = "max (max_column ws) (3 + ?n)"
  have mc: "max_column ?w = ?mc"
    using False by (simp add: max_column_write_unit_tags)
  have "Suc ?mc = (4 + ?n) + (Suc ?mc - (4 + ?n))"
    by simp
  then have split: "[4..<Suc ?mc] = [4..<4 + ?n] @ [4 + ?n..<Suc ?mc]"
    using upt_add_eq_append [of 4 "4 + ?n" "Suc ?mc - (4 + ?n)"] by simp
  have first: "map (\<lambda>c. cval (cells ?w (3, c))) [4..<4 + ?n] = tags"
    by (rule nth_equalityI) (simp_all add: cells_write_unit_tags)
  have second: "map (\<lambda>c. cval (cells ?w (3, c))) [4 + ?n..<Suc ?mc]
      = map (\<lambda>c. cval (cells ws (3, c))) [4 + ?n..<Suc ?mc]"
    by (rule map_cong) (auto simp add: cells_write_unit_tags)
  have rest: "filter truthy (map (\<lambda>c. cval (cells ws (3, c))) [4 + ?n..<Suc ?mc])
      = filter truthy (map (\<lambda>c. cval (cells ws (3, c))) [4 + ?n..<Suc (max_column ws)])"
  proof (cases "3 + ?n \<le> max_column ws")
    case True
    then show ?thesis by (simp add: max_def)
  next
    case False
    then show ?thesis by (simp add: max_def)
  qed
  have "filter truthy tags = tags"
    using assms by simp
  then show ?thesis
    unfolding header_tags_def mc split map_append filter_append first second rest by simp
qed

lemma filter_nth_prefix:
  assumes "k < length xs" and "\<forall>j \<le> k. P (xs ! j)"
  shows "k < length (filter P xs) \<and> filter P xs ! k = xs ! k"
proof -
  have "\<forall>x \<in> set (take (Suc k) xs). P x"
  proof
    fix x assume "x \<in> set (take (Suc k) xs)"
    then obtain j where "j < length (take (Suc k) xs)" and "take (Suc k) xs ! j = x"
      by (auto simp add: in_set_conv_nth)
    then show "P x" using assms by auto
  qed
  then have keep: "filter P (take (Suc k) xs) = take (Suc k) xs" by simp
  have "filter P xs = filter P (take (Suc k) xs @ drop (Suc k) xs)" by simp
  also have "\<dots> = take (Suc k) xs @ filter P (drop (Suc k) xs)"
    unfolding filter_append keep ..
  finally have eq: "filter P xs = take (Suc k) xs @ filter P (drop (Suc k) xs)" .
  have len: "length (take (Suc k) xs) = Suc k" using assms(1) by simp
  have "k < length (filter P xs)" unfolding eq using len by simp
  moreover have "filter P xs ! k = xs ! k"
    unfolding eq using len by (simp add: nth_append)
  ultimately show ?thesis by blast
qed

lemma header_tags_nth:
  assumes "4 \<le> c" and "c \<le> max_column ws"
    and "\<forall>c'. 4 \<le> c' \<and> c' \<le> c \<longrightarrow> truthy (cval (cells ws (r, c')))"
  shows "c - 4 < length (header_tags ws r) \<and> header_tags ws r ! (c - 4) = cval (cells ws (r, c))"
proof -
  let ?xs = "map (\<lambda>c. cval (cells ws (r, c))) [4..<Suc (max_column ws)]"
  have k: "c - 4 < length ?xs" using assms(1,2) by simp
  have nth: "?xs ! j = cval (cells ws (r, 4 + j))" if "j \<le> c - 4" for j
    by (rule nth_map_upt) (use that assms(1,2) in simp)
  have "\<forall>j \<le> c - 4. truthy (?xs ! j)"
  proof (intro allI impI)
    fix j assume j: "j \<le> c - 4"
    then have "4 \<le> 4 + j \<and> 4 + j \<le> c" using assms(1) by simp
    then show "truthy (?xs ! j)" using assms(3) nth [OF j] by simp
  qed
  from filter_nth_prefix [OF k this] nth [of "c - 4"] assms(1)
  show ?thesis by (simp add: header_tags_def)
qed

subsection \<open>Equality and membership of values\<close>

lemma py_eq_refl: "py_eq a a"
  by (cases a) (simp_all add: py_eq_def)

lemma py_in_nth: "j < length xs \<Longrightarrow> py_in (xs ! j) xs"
  unfolding py_in_def list_ex_iff using py_eq_refl nth_mem by blast

lemma py_in_Nil: "\<not> py_in x []"
  by (simp add: py_in_def)

lemma py_index_less: "py_in x xs \<Longrightarrow> py_index x xs < length xs"
proof -
  assume "py_in x xs"
  then obtain e where e: "e \<in> set xs" "py_eq e x"
    unfolding py_in_def list_ex_iff by blast
  have "takeWhile (\<lambda>e. \<not> py_eq e x) xs \<noteq> xs"
    using e by auto
  then have "length (takeWhile (\<lambda>e. \<not> py_eq e x) xs) \<noteq> length xs"
    by (metis takeWhile_eq_take take_all_iff order_refl)
  then show ?thesis
    unfolding py_index_def using length_takeWhile_le [of "\<lambda>e. \<not> py_eq e x" xs] by linarith
qed

lemma py_index_eq: "py_in x xs \<Longrightarrow> py_eq (xs ! py_index x xs) x"
  using nth_length_takeWhile [of "\<lambda>e. \<not> py_eq e x" xs] py_index_less [of x xs]
  by (simp add: py_index_def)

subsection \<open>One mapped pair in one column\<close>

lemma populate_pair_skip:
  "prs (fst pair) = None \<or> trs (snd pair) = None \<Longrightarrow>
   populate_pair round2 s prs trs col_off sc ws pair = ws"
  by (auto simp add: populate_pair_def split: option.splits)

lemma cells_populate_pair_column:
  "snd rc \<noteq> col_off + 4 \<Longrightarrow> snd rc \<noteq> 3 \<Longrightarrow>
   cells (populate_pair round2 s prs trs col_off sc ws pair) rc = cells ws rc"
  by (cases rc) (auto simp add: populate_pair_def Let_def cells_set_cell split: option.splits)

lemma cells_populate_pair_row:
  "prs (fst pair) \<noteq> Some (fst rc) \<Longrightarrow>
   cells (populate_pair round2 s prs trs col_off sc ws pair) rc = cells ws rc"
  by (cases rc) (auto simp add: populate_pair_def Let_def cells_set_cell split: option.splits)

lemma max_row_populate_pair:
  assumes "\<forall>k r. prs k = Some r \<longrightarrow> r \<le> max_row ws"
  shows "max_row (populate_pair round2 s prs trs col_off sc ws pair) = max_row ws"
proof (cases "prs (fst pair)")
  case None
  then show ?thesis by (simp add: populate_pair_skip)
next
  case (Some m_row)
  then have "m_row \<le> max_row ws" using assms by blast
  then show ?thesis
    using Some
    by (auto simp add: populate_pair_def Let_def max_row_set_cell max_def split: option.splits)
qed

lemma cells_populate_pair_value:
  assumes "prs (fst pair) = Some m_row" and "trs (snd pair) = Some s_row"
  shows "cells (populate_pair round2 s prs trs col_off sc ws pair) (m_row, col_off + 4) =
           (if cval (cells s (s_row, sc)) = PNone then cells ws (m_row, col_off + 4)
            else (cells ws (m_row, col_off + 4))
                   \<lparr>cval := rounded round2 (cval (cells s (s_row, sc))), thin := True\<rparr>)"
  using assms by (simp add: populate_pair_def Let_def cells_set_cell)

lemma unit_update_idem: "unit_update u (unit_update u v) = unit_update u v"
  by (simp add: unit_update_def py_eq_refl)

lemma cells_populate_pair_unit:
  assumes "prs (fst pair) = Some m_row" and "trs (snd pair) = Some s_row"
  shows "cval (cells (populate_pair round2 s prs trs col_off sc ws pair) (m_row, 3)) =
           unit_update (cval (cells s (s_row, 2))) (cval (cells ws (m_row, 3)))"
  using assms by (auto simp add: populate_pair_def Let_def cells_set_cell unit_update_def)

subsection \<open>The loop over the mapping\<close>

lemma foldl_populate_pair_column:
  "snd rc \<noteq> col_off + 4 \<Longrightarrow> snd rc \<noteq> 3 \<Longrightarrow>
   cells (foldl (populate_pair round2 s prs trs col_off sc) ws mp) rc = cells ws rc"
  by (induction mp arbitrary: ws) (simp_all add: cells_populate_pair_column)

lemma foldl_populate_pair_row:
  "\<forall>pair \<in> set mp. prs (fst pair) \<noteq> Some (fst rc) \<or> trs (snd pair) = None \<Longrightarrow>
   cells (foldl (populate_pair round2 s prs trs col_off sc) ws mp) rc = cells ws rc"
proof (induction mp arbitrary: ws)
  case Nil
  then show ?case by simp
next
  case (Cons pair mp)
  have "cells (populate_pair round2 s prs trs col_off sc ws pair) rc = cells ws rc"
    using Cons.prems cells_populate_pair_row [of prs pair rc] populate_pair_skip [of prs pair trs]
    by auto
  then show ?case using Cons by simp
qed

lemma foldl_populate_pair_max_row:
  "\<forall>k r. prs k = Some r \<longrightarrow> r \<le> max_row ws \<Longrightarrow>
   max_row (foldl (populate_pair round2 s prs trs col_off sc) ws mp) = max_row ws"
  by (induction mp arbitrary: ws) (simp_all add: max_row_populate_pair)

lemma foldl_populate_pair_filter:
  "foldl (populate_pair round2 s prs trs col_off sc) ws
      (filter (\<lambda>pair. prs (fst pair) \<noteq> None \<and> trs (snd pair) \<noteq> None) mp)
   = foldl (populate_pair round2 s prs trs col_off sc) ws mp"
  by (induction mp arbitrary: ws) (auto simp add: populate_pair_skip)

lemma foldl_populate_pair_value:
  assumes inj: "\<forall>k k' r. prs k = Some r \<and> prs k' = Some r \<longrightarrow> k = k'"
    and "distinct (map fst mp)" and "(p, t) \<in> set mp"
    and p: "prs p = Some m_row" and t: "trs t = Some s_row"
  shows "cells (foldl (populate_pair round2 s prs trs col_off sc) ws mp) (m_row, col_off + 4) =
           (if cval (cells s (s_row, sc)) = PNone then cells ws (m_row, col_off + 4)
            else (cells ws (m_row, col_off + 4))
                   \<lparr>cval := rounded round2 (cval (cells s (s_row, sc))), thin := True\<rparr>)"
  using assms(2,3)
proof (induction mp arbitrary: ws)
  case Nil
  then show ?case by simp
next
  case (Cons pair mp)
  let ?step = "populate_pair round2 s prs trs col_off sc ws pair"
  show ?case
  proof (cases "pair = (p, t)")
    case True
    have "\<forall>q \<in> set mp. prs (fst q) \<noteq> Some (fst (m_row, col_off + 4)) \<or> trs (snd q) = None"
    proof
      fix q assume q: "q \<in> set mp"
      have "fst q \<noteq> p" using Cons.prems(1) True q by auto
      then show "prs (fst q) \<noteq> Some (fst (m_row, col_off + 4)) \<or> trs (snd q) = None"
        using inj p by auto
    qed
    then have "cells (foldl (populate_pair round2 s prs trs col_off sc) ?step mp) (m_row, col_off + 4)
        = cells ?step (m_row, col_off + 4)"
      by (rule foldl_populate_pair_row)
    then show ?thesis
      using True cells_populate_pair_value [of prs pair m_row trs s_row round2 s col_off sc ws] p t
      by simp
  next
    case False
    then have in_rest: "(p, t) \<in> set mp" using Cons.prems(2) by simp
    then have "p \<in> set (map fst mp)" by force
    then have "fst pair \<noteq> p" using Cons.prems(1) by auto
    then have "prs (fst pair) \<noteq> Some (fst (m_row, col_off + 4))" using inj p by auto
    then have same: "cells ?step (m_row, col_off + 4) = cells ws (m_row, col_off + 4)"
      by (rule cells_populate_pair_row)
    have "distinct (map fst mp)" using Cons.prems(1) by simp
    then show ?thesis
      using Cons.IH [of ?step] in_rest same by simp
  qed
qed

lemma foldl_populate_pair_unit:
  assumes inj: "\<forall>k k' r. prs k = Some r \<and> prs k' = Some r \<longrightarrow> k = k'"
    and "distinct (map fst mp)" and "(p, t) \<in> set mp"
    and p: "prs p = Some m_row" and t: "trs t = Some s_row"
  shows "cval (cells (foldl (populate_pair round2 s prs trs col_off sc) ws mp) (m_row, 3)) =
           unit_update (cval (cells s (s_row, 2))) (cval (cells ws (m_row, 3)))"
  using assms(2,3)
proof (induction mp arbitrary: ws)
  case Nil
  then show ?case by simp
next
  case (Cons pair mp)
  let ?step = "populate_pair round2 s prs trs col_off sc ws pair"
  show ?case
  proof (cases "pair = (p, t)")
    case True
    have "\<forall>q \<in> set mp. prs (fst q) \<noteq> Some (fst (m_row, 3::nat)) \<or> trs (snd q) = None"
    proof
      fix q assume q: "q \<in> set mp"
      have "fst q \<noteq> p" using Cons.prems(1) True q by auto
      then show "prs (fst q) \<noteq> Some (fst (m_row, 3::nat)) \<or> trs (snd q) = None"
        using inj p by auto
    qed
    then have "cells (foldl (populate_pair round2 s prs trs col_off sc) ?step mp) (m_row, 3)
        = cells ?step (m_row, 3)"
      by (rule foldl_populate_pair_row)
    then show ?thesis
      using True cells_populate_pair_unit [of prs pair m_row trs s_row round2 s col_off sc ws] p t
      by simp
  next
    case False
    then have in_rest: "(p, t) \<in> set mp" using Cons.prems(2) by simp
    then have "p \<in> set (map fst mp)" by force
    then have "fst pair \<noteq> p" using Cons.prems(1) by auto
    then have "prs (fst pair) \<noteq> Some (fst (m_row, 3::nat))" using inj p by auto
    then have same: "cells ?step (m_row, 3) = cells ws (m_row, 3)"
      by (rule cells_populate_pair_row)
    have "distinct (map fst mp)" using Cons.prems(1) by simp
    then show ?thesis
      using Cons.IH [of ?step] in_rest same by simp
  qed
qed

subsection \<open>The loop over the unit-tag columns\<close>

lemma populate_column_unmatched:
  "\<not> py_in unit_tag stags \<Longrightarrow> populate_column round2 s prs trs stags mp col_off unit_tag ws = ws"
  by (simp add: populate_column_def)

lemma cells_populate_column_other:
  "c \<noteq> col_off + 4 \<Longrightarrow> c \<noteq> 3 \<Longrightarrow>
   cells (populate_column round2 s prs trs stags mp col_off unit_tag ws) (r, c) = cells ws (r, c)"
  by (simp add: populate_column_def foldl_populate_pair_column)

lemma cells_populate_column_row:
  "\<forall>pair \<in> set mp. prs (fst pair) \<noteq> Some r \<or> trs (snd pair) = None \<Longrightarrow>
   cells (populate_column round2 s prs trs stags mp col_off unit_tag ws) (r, c) = cells ws (r, c)"
  using foldl_populate_pair_row [of mp prs "(r, c)" trs]
  by (simp add: populate_column_def)

lemma max_row_populate_column:
  "\<forall>k r. prs k = Some r \<longrightarrow> r \<le> max_row ws \<Longrightarrow>
   max_row (populate_column round2 s prs trs stags mp col_off unit_tag ws) = max_row ws"
  by (simp add: populate_column_def foldl_populate_pair_max_row)

lemma populate_column_filter:
  "populate_column round2 s prs trs stags
      (filter (\<lambda>pair. prs (fst pair) \<noteq> None \<and> trs (snd pair) \<noteq> None) mp) col_off unit_tag ws
   = populate_column round2 s prs trs stags mp col_off unit_tag ws"
  by (simp only: populate_column_def foldl_populate_pair_filter)

lemma populate_values_filter:
  "populate_values round2 s prs trs stags
      (filter (\<lambda>pair. prs (fst pair) \<noteq> None \<and> trs (snd pair) \<noteq> None) mp) i mtags ws
   = populate_values round2 s prs trs stags mp i mtags ws"
  by (induction mtags arbitrary: i ws) (simp_all only: populate_values.simps populate_column_filter)

lemma max_row_populate_values:
  "\<forall>k r. prs k = Some r \<longrightarrow> r \<le> max_row ws \<Longrightarrow>
   max_row (populate_values round2 s prs trs stags mp i mtags ws) = max_row ws"
  by (induction mtags arbitrary: i ws) (simp_all add: max_row_populate_column)

lemma cells_populate_values_row:
  "\<forall>pair \<in> set mp. prs (fst pair) \<noteq> Some r \<or> trs (snd pair) = None \<Longrightarrow>
   cells (populate_values round2 s prs trs stags mp i mtags ws) (r, c) = cells ws (r, c)"
  by (induction mtags arbitrary: i ws) (simp_all add: cells_populate_column_row)

lemma cells_populate_values_before:
  "c \<noteq> 3 \<Longrightarrow> c < i + 4 \<Longrightarrow>
   cells (populate_values round2 s prs trs stags mp i mtags ws) (r, c) = cells ws (r, c)"
  by (induction mtags arbitrary: i ws) (simp_all add: cells_populate_column_other)

lemma cells_populate_values_skipped:
  assumes "c \<noteq> 3"
    and "c < i + 4 \<or> i + 4 + length mtags \<le> c \<or> \<not> py_in (mtags ! (c - (i + 4))) stags"
  shows "cells (populate_values round2 s prs trs stags mp i mtags ws) (r, c) = cells ws (r, c)"
  using assms(2)
proof (induction mtags arbitrary: i ws)
  case Nil
  then show ?case by simp
next
  case (Cons unit_tag mtags)
  let ?step = "populate_column round2 s prs trs stags mp i unit_tag ws"
  have head: "cells ?step (r, c) = cells ws (r, c)"
  proof (cases "c = i + 4")
    case True
    then have "\<not> py_in unit_tag stags" using Cons.prems by simp
    then show ?thesis by (simp add: populate_column_unmatched)
  next
    case False
    then show ?thesis using assms(1) by (simp add: cells_populate_column_other)
  qed
  have "c < Suc i + 4 \<or> Suc i + 4 + length mtags \<le> c \<or> \<not> py_in (mtags ! (c - (Suc i + 4))) stags"
  proof (cases "c < Suc i + 4 \<or> Suc i + 4 + length mtags \<le> c")
    case True
    then show ?thesis by blast
  next
    case False
    then have "c - (i + 4) = Suc (c - (Suc i + 4))" by linarith
    then show ?thesis using Cons.prems False by auto
  qed
  then show ?case using Cons.IH [of "Suc i" ?step] head by simp
qed

lemma cells_populate_values_value:
  assumes inj: "\<forall>k k' r. prs k = Some r \<and> prs k' = Some r \<longrightarrow> k = k'"
    and "distinct (map fst mp)" and "(p, t) \<in> set mp"
    and p: "prs p = Some m_row" and t: "trs t = Some s_row"
    and "i \<le> j" and "j - i < length mtags" and "py_in (mtags ! (j - i)) stags"
  shows "cells (populate_values round2 s prs trs stags mp i mtags ws) (m_row, j + 4) =
           (let val = cval (cells s (s_row, py_index (mtags ! (j - i)) stags + 4)) in
            if val = PNone then cells ws (m_row, j + 4)
            else (cells ws (m_row, j + 4))\<lparr>cval := rounded round2 val, thin := True\<rparr>)"
  using assms(6,7,8)
proof (induction mtags arbitrary: i ws)
  case Nil
  then show ?case by simp
next
  case (Cons unit_tag mtags)
  let ?step = "populate_column round2 s prs trs stags mp i unit_tag ws"
  show ?case
  proof (cases "j = i")
    case True
    then have m: "py_in unit_tag stags" using Cons.prems by simp
    have "cells (populate_values round2 s prs trs stags mp (Suc i) mtags ?step) (m_row, j + 4)
        = cells ?step (m_row, j + 4)"
      using True by (simp add: cells_populate_values_before)
    then show ?thesis
      using True m
        foldl_populate_pair_value [where prs = prs and trs = trs and p = p and t = t,
          OF inj assms(2,3) p t, of round2 s i _ ws]
      by (simp add: populate_column_def)
  next
    case False
    then have lt: "Suc i \<le> j" using Cons.prems by simp
    then have idx: "j - i = Suc (j - Suc i)" by simp
    have same: "cells ?step (m_row, j + 4) = cells ws (m_row, j + 4)"
      using False by (simp add: cells_populate_column_other)
    have "j - Suc i < length mtags" and "py_in (mtags ! (j - Suc i)) stags"
      using Cons.prems idx by simp_all
    then show ?thesis
      using Cons.IH [of "Suc i" ?step] lt same idx by (simp add: Let_def)
  qed
qed

lemma cells_populate_values_unit:
  assumes inj: "\<forall>k k' r. prs k = Some r \<and> prs k' = Some r \<longrightarrow> k = k'"
    and "distinct (map fst mp)" and "(p, t) \<in> set mp"
    and p: "prs p = Some m_row" and t: "trs t = Some s_row"
  shows "cval (cells (populate_values round2 s prs trs stags mp i mtags ws) (m_row, 3)) =
           (if \<exists>unit_tag \<in> set mtags. py_in unit_tag stags
            then unit_update (cval (cells s (s_row, 2))) (cval (cells ws (m_row, 3)))
            else cval (cells ws (m_row, 3)))"
proof (induction mtags arbitrary: i ws)
  case Nil
  then show ?case by simp
next
  case (Cons unit_tag mtags)
  let ?step = "populate_column round2 s prs trs stags mp i unit_tag ws"
  have head: "cval (cells ?step (m_row, 3)) =
      (if py_in unit_tag stags
       then unit_update (cval (cells s (s_row, 2))) (cval (cells ws (m_row, 3)))
       else cval (cells ws (m_row, 3)))"
    using foldl_populate_pair_unit [where prs = prs and trs = trs and p = p and t = t,
        OF inj assms(2,3) p t, of round2 s i _ ws]
    by (simp add: populate_column_def)
  show ?case
    using Cons.IH [of "Suc i" ?step] head by (auto simp add: unit_update_idem)
qed

subsection \<open>The scan for the SysCAD Inputs block\<close>

lemma scan_param_rows_step:
  "scan_param_rows ws (a # rows) f acc = Inr acc \<or>
   scan_param_rows ws (a # rows) f acc = Inl AttributeError \<or>
   (\<exists>f'. scan_param_rows ws (a # rows) f acc = scan_param_rows ws rows f' acc) \<or>
   (\<exists>f' s. cval (cells ws (a, 2)) = PStr s \<and>
      scan_param_rows ws (a # rows) f acc = scan_param_rows ws rows f' (acc(strip s \<mapsto> a)))"
  by (cases "cval (cells ws (a, 2))") (auto simp add: Let_def)

lemma scan_param_rows_sound:
  "scan_param_rows ws rows f acc = Inr prs \<Longrightarrow> prs k = Some r \<Longrightarrow>
   acc k = Some r \<or> (r \<in> set rows \<and> (\<exists>s. cval (cells ws (r, 2)) = PStr s \<and> strip s = k))"
proof (induction rows arbitrary: f acc)
  case Nil
  then show ?case by simp
next
  case (Cons a rows)
  consider (brk) "scan_param_rows ws (a # rows) f acc = Inr acc"
    | (err) "scan_param_rows ws (a # rows) f acc = Inl AttributeError"
    | (skip) f' where "scan_param_rows ws (a # rows) f acc = scan_param_rows ws rows f' acc"
    | (upd) f' s where "cval (cells ws (a, 2)) = PStr s"
        "scan_param_rows ws (a # rows) f acc = scan_param_rows ws rows f' (acc(strip s \<mapsto> a))"
    using scan_param_rows_step [of ws a rows f acc] by blast
  then show ?case
  proof cases
    case brk
    then show ?thesis using Cons.prems by simp
  next
    case err
    then show ?thesis using Cons.prems by simp
  next
    case skip
    then have "scan_param_rows ws rows f' acc = Inr prs" using Cons.prems(1) by simp
    from Cons.IH [OF this Cons.prems(2)] show ?thesis by auto
  next
    case upd
    then have "scan_param_rows ws rows f' (acc(strip s \<mapsto> a)) = Inr prs"
      using Cons.prems(1) by simp
    from Cons.IH [OF this Cons.prems(2)] show ?thesis
      using upd(1) by (auto split: if_splits)
  qed
qed

lemma param_rows_sound:
  assumes "param_rows ws = Inr prs" and "prs k = Some r"
  shows "1 \<le> r \<and> r \<le> max_row ws \<and> (\<exists>s. cval (cells ws (r, 2)) = PStr s \<and> strip s = k)"
  using scan_param_rows_sound [of ws "[1..<Suc (max_row ws)]" False Map.empty prs k r] assms
  by (auto simp add: param_rows_def)

lemma param_rows_inj:
  assumes "param_rows ws = Inr prs"
  shows "\<forall>k k' r. prs k = Some r \<and> prs k' = Some r \<longrightarrow> k = k'"
proof (intro allI impI)
  fix k k' r
  assume "prs k = Some r \<and> prs k' = Some r"
  then have "\<exists>s. cval (cells ws (r, 2)) = PStr s \<and> strip s = k"
    and "\<exists>s. cval (cells ws (r, 2)) = PStr s \<and> strip s = k'"
    using param_rows_sound [OF assms] by blast+
  then show "k = k'" by auto
qed

lemma param_rows_le_max_row:
  assumes "param_rows ws = Inr prs"
  shows "\<forall>k r. prs k = Some r \<longrightarrow> r \<le> max_row ws"
  using param_rows_sound [OF assms] by blast

lemma scan_param_rows_cong:
  assumes "\<forall>r \<in> set rows. cells a (r, 1) = cells b (r, 1) \<and> cells a (r, 2) = cells b (r, 2)"
  shows "scan_param_rows a rows f acc = scan_param_rows b rows f acc"
  using assms
proof (induction rows arbitrary: f acc)
  case Nil
  then show ?case by simp
next
  case (Cons r rows)
  then show ?case by (simp add: Let_def split: pyval.splits)
qed

lemma param_rows_cong:
  assumes "max_row a = max_row b"
    and "\<forall>r. cells a (r, 1) = cells b (r, 1) \<and> cells a (r, 2) = cells b (r, 2)"
  shows "param_rows a = param_rows b"
  using assms scan_param_rows_cong [of "[1..<Suc (max_row b)]" a b False Map.empty]
  by (simp add: param_rows_def)

lemma upt_split: "i \<le> j \<Longrightarrow> j < k \<Longrightarrow> [i..<k] = [i..<j] @ j # [Suc j..<k]"
proof -
  assume ij: "i \<le> j" and jk: "j < k"
  have "[i..<j + (k - j)] = [i..<j] @ [j..<j + (k - j)]"
    using ij by (rule upt_add_eq_append)
  then show ?thesis using jk by (simp add: upt_conv_Cons)
qed

lemma scan_param_rows_before_open:
  "\<forall>r \<in> set pre. \<not> label_has (py ''SysCAD Inputs'') (cval (cells ws (r, 1))) \<Longrightarrow>
   scan_param_rows ws (pre @ rest) False acc = scan_param_rows ws rest False acc"
  by (induction pre) (simp_all add: Let_def)

lemma scan_param_rows_open_row:
  "label_has (py ''SysCAD Inputs'') (cval (cells ws (r, 1))) \<Longrightarrow>
   \<not> label_has (py ''Engineering Inputs'') (cval (cells ws (r, 1))) \<Longrightarrow>
   cval (cells ws (r, 2)) = PStr s \<Longrightarrow> s \<noteq> [] \<Longrightarrow>
   scan_param_rows ws (r # rest) f acc = scan_param_rows ws rest True (acc(strip s \<mapsto> r))"
  by (simp add: Let_def)

lemma scan_param_rows_inside_row:
  "\<not> label_has (py ''Engineering Inputs'') (cval (cells ws (r, 1))) \<Longrightarrow>
   cval (cells ws (r, 2)) = PStr s \<Longrightarrow> s \<noteq> [] \<Longrightarrow>
   scan_param_rows ws (r # rest) True acc = scan_param_rows ws rest True (acc(strip s \<mapsto> r))"
  by (simp add: Let_def)

lemma scan_param_rows_inside:
  "\<forall>r \<in> set xs. \<not> label_has (py ''Engineering Inputs'') (cval (cells ws (r, 1))) \<and>
      (truthy (cval (cells ws (r, 2))) \<longrightarrow> (\<exists>s. cval (cells ws (r, 2)) = PStr s)) \<Longrightarrow>
   \<exists>acc'. scan_param_rows ws (xs @ rest) True acc = scan_param_rows ws rest True acc'"
proof (induction xs arbitrary: acc)
  case Nil
  then show ?case by auto
next
  case (Cons r xs)
  have rest: "\<exists>acc'. scan_param_rows ws (xs @ rest) True acc0 = scan_param_rows ws rest True acc'" for acc0
    using Cons by simp
  show ?case
  proof (cases "truthy (cval (cells ws (r, 2)))")
    case True
    then obtain s where "cval (cells ws (r, 2)) = PStr s" using Cons.prems by auto
    then show ?thesis using True Cons.prems rest [of "acc(strip s \<mapsto> r)"] by (simp add: Let_def)
  next
    case False
    then show ?thesis using Cons.prems rest [of acc] by (simp add: Let_def)
  qed
qed

lemma scan_param_rows_tail:
  "\<forall>r \<in> set ys. truthy (cval (cells ws (r, 2))) \<longrightarrow>
      (\<exists>s. cval (cells ws (r, 2)) = PStr s \<and> strip s \<noteq> k) \<Longrightarrow>
   \<exists>prs. scan_param_rows ws ys f acc = Inr prs \<and> prs k = acc k"
proof (induction ys arbitrary: f acc)
  case Nil
  then show ?case by simp
next
  case (Cons r ys)
  have rest: "\<exists>prs. scan_param_rows ws ys f0 acc0 = Inr prs \<and> prs k = acc0 k" for f0 acc0
    using Cons by simp
  show ?case
  proof (cases "truthy (cval (cells ws (r, 2)))")
    case True
    then obtain s where s: "cval (cells ws (r, 2)) = PStr s" "strip s \<noteq> k" using Cons.prems by auto
    show ?thesis
      using True s rest [of True "acc(strip s \<mapsto> r)"] rest [of f acc]
      by (auto simp add: Let_def)
  next
    case False
    then show ?thesis using rest [of True acc] rest [of f acc] by (auto simp add: Let_def)
  qed
qed

lemma scan_param_rows_block_tail:
  assumes "\<forall>r \<in> set ys. \<not> label_has (py ''Engineering Inputs'') (cval (cells ws (r, 1))) \<and>
      (truthy (cval (cells ws (r, 2))) \<longrightarrow> (\<exists>s. cval (cells ws (r, 2)) = PStr s \<and> strip s \<noteq> k))"
    and "rest = [] \<or> label_has (py ''Engineering Inputs'') (cval (cells ws (hd rest, 1)))"
  shows "\<exists>prs. scan_param_rows ws (ys @ rest) True acc = Inr prs \<and> prs k = acc k"
  using assms(1)
proof (induction ys arbitrary: acc)
  case Nil
  show ?case
  proof (cases rest)
    case Nil
    then show ?thesis by simp
  next
    case (Cons r rs)
    then have "label_has (py ''Engineering Inputs'') (cval (cells ws (r, 1)))"
      using assms(2) by simp
    then show ?thesis using Cons by (simp add: Let_def)
  qed
next
  case (Cons r ys)
  have rest: "\<exists>prs. scan_param_rows ws (ys @ rest) True acc0 = Inr prs \<and> prs k = acc0 k" for acc0
    using Cons by simp
  have open_r: "\<not> label_has (py ''Engineering Inputs'') (cval (cells ws (r, 1)))"
    using Cons.prems by simp
  show ?case
  proof (cases "truthy (cval (cells ws (r, 2)))")
    case True
    then obtain s where s: "cval (cells ws (r, 2)) = PStr s" "strip s \<noteq> k"
      using Cons.prems by auto
    show ?thesis
      using True s open_r rest [of "acc(strip s \<mapsto> r)"] by (auto simp add: Let_def)
  next
    case False
    then show ?thesis using open_r rest [of acc] by (auto simp add: Let_def)
  qed
qed

lemma scan_param_rows_dom:
  "scan_param_rows ws rows f acc = Inr prs \<Longrightarrow> acc k \<noteq> None \<Longrightarrow> prs k \<noteq> None"
proof (induction rows arbitrary: f acc)
  case Nil
  then show ?case by simp
next
  case (Cons a rows)
  consider (brk) "scan_param_rows ws (a # rows) f acc = Inr acc"
    | (err) "scan_param_rows ws (a # rows) f acc = Inl AttributeError"
    | (skip) f' where "scan_param_rows ws (a # rows) f acc = scan_param_rows ws rows f' acc"
    | (upd) f' s where "cval (cells ws (a, 2)) = PStr s"
        "scan_param_rows ws (a # rows) f acc = scan_param_rows ws rows f' (acc(strip s \<mapsto> a))"
    using scan_param_rows_step [of ws a rows f acc] by blast
  then show ?case
  proof cases
    case brk
    then show ?thesis using Cons.prems by simp
  next
    case err
    then show ?thesis using Cons.prems by simp
  next
    case skip
    show ?thesis
      using Cons.IH [OF Cons.prems(1) [unfolded skip] Cons.prems(2)] .
  next
    case upd
    have "(acc(strip s \<mapsto> a)) k \<noteq> None" using Cons.prems(2) by simp
    then show ?thesis
      using Cons.IH [OF Cons.prems(1) [unfolded upd(2)]] by blast
  qed
qed

lemma scan_param_rows_open_any:
  assumes "label_has (py ''SysCAD Inputs'') (cval (cells ws (r, 1)))"
    and "\<not> label_has (py ''Engineering Inputs'') (cval (cells ws (r, 1)))"
    and "truthy (cval (cells ws (r, 2))) \<longrightarrow> (\<exists>s. cval (cells ws (r, 2)) = PStr s)"
  shows "\<exists>acc'. scan_param_rows ws (r # rest) f acc = scan_param_rows ws rest True acc'"
proof (cases "truthy (cval (cells ws (r, 2)))")
  case True
  then obtain s where "cval (cells ws (r, 2)) = PStr s" using assms(3) by blast
  then show ?thesis using True assms(1,2) by (auto simp add: Let_def)
next
  case False
  then show ?thesis using assms(1,2) by (auto simp add: Let_def)
qed

lemma scan_params_before_open:
  "\<forall>r \<in> set pre. \<not> label_has (py ''SysCAD Inputs'') (cval (cells ws (r, 1))) \<Longrightarrow>
   scan_params ws (pre @ rest) False acc = scan_params ws rest False acc"
  by (induction pre) (simp_all add: Let_def)

lemma scan_params_open_row:
  "label_has (py ''SysCAD Inputs'') (cval (cells ws (r, 1))) \<Longrightarrow>
   \<not> label_has (py ''Engineering Inputs'') (cval (cells ws (r, 1))) \<Longrightarrow>
   cval (cells ws (r, 2)) = PStr s \<Longrightarrow> s \<noteq> [] \<Longrightarrow>
   scan_params ws (r # rest) f acc = scan_params ws rest True (acc @ [strip s])"
  by (simp add: Let_def)

lemma scan_params_step:
  "scan_params ws (a # rows) f acc = Inr acc \<or>
   scan_params ws (a # rows) f acc = Inl AttributeError \<or>
   (\<exists>f'. scan_params ws (a # rows) f acc = scan_params ws rows f' acc) \<or>
   (\<exists>f' s. cval (cells ws (a, 2)) = PStr s \<and>
      scan_params ws (a # rows) f acc = scan_params ws rows f' (acc @ [strip s]))"
  by (cases "cval (cells ws (a, 2))") (auto simp add: Let_def)

lemma scan_params_prefix:
  "scan_params ws rows f acc = Inr params \<Longrightarrow> prefix acc params"
proof (induction rows arbitrary: f acc)
  case Nil
  then show ?case by simp
next
  case (Cons a rows)
  consider (brk) "scan_params ws (a # rows) f acc = Inr acc"
    | (err) "scan_params ws (a # rows) f acc = Inl AttributeError"
    | (skip) f' where "scan_params ws (a # rows) f acc = scan_params ws rows f' acc"
    | (upd) f' s where "cval (cells ws (a, 2)) = PStr s"
        "scan_params ws (a # rows) f acc = scan_params ws rows f' (acc @ [strip s])"
    using scan_params_step [of ws a rows f acc] by blast
  then show ?case
  proof cases
    case brk
    then show ?thesis using Cons.prems by simp
  next
    case err
    then show ?thesis using Cons.prems by simp
  next
    case skip
    then show ?thesis using Cons.prems Cons.IH [of f' acc] by simp
  next
    case upd
    then have "prefix (acc @ [strip s]) params"
      using Cons.prems Cons.IH [of f' "acc @ [strip s]"] by simp
    then show ?thesis using append_prefixD by blast
  qed
qed

subsection \<open>One sheet\<close>

lemma master_unit_tags_after_write:
  "\<exists>rest. master_unit_tags (write_unit_tags 0 (stream_unit_tags s) ws) = stream_unit_tags s @ rest"
  using header_tags_write_unit_tags [of "header_tags s 1" ws] truthy_header_tags [of s 1]
  by (simp add: master_unit_tags_def stream_unit_tags_def)

lemma matched_column_exists:
  "(\<exists>unit_tag \<in> set (master_unit_tags (write_unit_tags 0 (stream_unit_tags s) ws)).
       py_in unit_tag (stream_unit_tags s)) \<longleftrightarrow> stream_unit_tags s \<noteq> []"
proof
  assume "\<exists>unit_tag \<in> set (master_unit_tags (write_unit_tags 0 (stream_unit_tags s) ws)).
       py_in unit_tag (stream_unit_tags s)"
  then show "stream_unit_tags s \<noteq> []" using py_in_Nil by auto
next
  assume ne: "stream_unit_tags s \<noteq> []"
  obtain rest where "master_unit_tags (write_unit_tags 0 (stream_unit_tags s) ws) = stream_unit_tags s @ rest"
    using master_unit_tags_after_write by blast
  moreover have "py_in (stream_unit_tags s ! 0) (stream_unit_tags s)"
    using ne by (simp add: py_in_nth)
  moreover have "stream_unit_tags s ! 0 \<in> set (stream_unit_tags s)"
    using ne by simp
  ultimately show "\<exists>unit_tag \<in> set (master_unit_tags (write_unit_tags 0 (stream_unit_tags s) ws)).
       py_in unit_tag (stream_unit_tags s)"
    by auto
qed

lemma unmatched_position:
  assumes "col_off < length (master_unit_tags (write_unit_tags 0 (stream_unit_tags s) ws))"
    and "\<not> py_in (master_unit_tags (write_unit_tags 0 (stream_unit_tags s) ws) ! col_off) (stream_unit_tags s)"
  shows "length (stream_unit_tags s) \<le> col_off"
proof (rule ccontr)
  assume "\<not> length (stream_unit_tags s) \<le> col_off"
  then have lt: "col_off < length (stream_unit_tags s)" by simp
  obtain rest where "master_unit_tags (write_unit_tags 0 (stream_unit_tags s) ws) = stream_unit_tags s @ rest"
    using master_unit_tags_after_write by blast
  then have "master_unit_tags (write_unit_tags 0 (stream_unit_tags s) ws) ! col_off = stream_unit_tags s ! col_off"
    using lt by (simp add: nth_append)
  then show False using assms(2) py_in_nth [OF lt] by simp
qed

lemma populate_sheet_Inr:
  assumes "stream_tag_to_row s = Inr trs"
    and "param_rows (write_unit_tags 0 (stream_unit_tags s) m) = Inr prs"
    and "mp \<noteq> []"
  shows "populate_sheet round2 m s mp =
           Inr (populate_values round2 s prs trs (stream_unit_tags s) mp 0
                  (master_unit_tags (write_unit_tags 0 (stream_unit_tags s) m))
                  (write_unit_tags 0 (stream_unit_tags s) m))"
  using assms by (simp add: populate_sheet_def Let_def)

lemma populate_sheet_InrE:
  assumes "populate_sheet round2 m s mp = Inr m1" and "mp \<noteq> []"
  obtains trs prs where "stream_tag_to_row s = Inr trs"
    and "param_rows (write_unit_tags 0 (stream_unit_tags s) m) = Inr prs"
    and "m1 = populate_values round2 s prs trs (stream_unit_tags s) mp 0
                  (master_unit_tags (write_unit_tags 0 (stream_unit_tags s) m))
                  (write_unit_tags 0 (stream_unit_tags s) m)"
  using assms by (auto simp add: populate_sheet_def Let_def split: sum.splits)

lemma unmatched_position_untouched:
  fixes master_ws stream_ws :: sheet
  defines "m1 \<equiv> write_unit_tags 0 (stream_unit_tags stream_ws) master_ws"
  assumes trs: "stream_tag_to_row stream_ws = Inr trs"
    and prs: "param_rows m1 = Inr prs"
    and col: "col_off < length (master_unit_tags m1)"
    and unmatched: "\<not> py_in (master_unit_tags m1 ! col_off) (stream_unit_tags stream_ws)"
  shows "\<exists>result. populate_sheet round2 master_ws stream_ws param_mapping = Inr result \<and>
           (\<forall>r. cells result (r, col_off + 4) = cells master_ws (r, col_off + 4))"
proof (cases "param_mapping = []")
  case True
  then show ?thesis by (simp add: populate_sheet_def)
next
  case False
  note res = populate_sheet_Inr [OF trs prs [unfolded m1_def] False, of round2]
  have n: "length (stream_unit_tags stream_ws) \<le> col_off"
    using unmatched_position col unmatched unfolding m1_def by blast
  have header: "cells m1 (r, col_off + 4) = cells master_ws (r, col_off + 4)" for r
    using n by (simp add: m1_def cells_write_unit_tags)
  have "cells (populate_values round2 stream_ws prs trs (stream_unit_tags stream_ws) param_mapping 0
                  (master_unit_tags m1) m1) (r, col_off + 4) = cells m1 (r, col_off + 4)" for r
    by (rule cells_populate_values_skipped) (use unmatched in simp_all)
  then show ?thesis
    unfolding res [folded m1_def] using header by simp
qed

lemma matched_position_value:
  fixes master_ws stream_ws :: sheet
  defines "m1 \<equiv> write_unit_tags 0 (stream_unit_tags stream_ws) master_ws"
  assumes trs: "stream_tag_to_row stream_ws = Inr trs"
    and prs: "param_rows m1 = Inr prs"
    and dist: "distinct (map fst param_mapping)"
    and pair: "(master_param, stream_tag) \<in> set param_mapping"
    and p: "prs master_param = Some m_row" and t: "trs stream_tag = Some s_row"
    and col: "col_off < length (master_unit_tags m1)"
    and matched: "py_in (master_unit_tags m1 ! col_off) (stream_unit_tags stream_ws)"
  shows "\<exists>result. populate_sheet round2 master_ws stream_ws param_mapping = Inr result \<and>
           (let val = cval (cells stream_ws
                        (s_row, py_index (master_unit_tags m1 ! col_off) (stream_unit_tags stream_ws) + 4))
            in (val = PNone \<longrightarrow> cells result (m_row, col_off + 4) = cells m1 (m_row, col_off + 4)) \<and>
               (\<forall>x. val = PFloat x \<longrightarrow> cval (cells result (m_row, col_off + 4)) = PFloat (round2 x)) \<and>
               (val \<noteq> PNone \<longrightarrow> (\<forall>x. val \<noteq> PFloat x) \<longrightarrow> cval (cells result (m_row, col_off + 4)) = val))"
proof -
  have ne: "param_mapping \<noteq> []" using pair by auto
  note res = populate_sheet_Inr [OF trs prs [unfolded m1_def] ne, of round2]
  have cell: "cells (populate_values round2 stream_ws prs trs (stream_unit_tags stream_ws) param_mapping 0
                  (master_unit_tags m1) m1) (m_row, col_off + 4) =
           (let val = cval (cells stream_ws (s_row, py_index (master_unit_tags m1 ! (col_off - 0)) (stream_unit_tags stream_ws) + 4)) in
            if val = PNone then cells m1 (m_row, col_off + 4)
            else (cells m1 (m_row, col_off + 4))\<lparr>cval := rounded round2 val, thin := True\<rparr>)"
    by (rule cells_populate_values_value [where p = master_param and t = stream_tag and prs = prs and trs = trs,
          OF param_rows_inj [OF prs] dist pair p t]) (use col matched in simp_all)
  show ?thesis
    unfolding res [folded m1_def]
    by (auto simp add: cell Let_def rounded_def split: pyval.splits)
qed

lemma populate_sheet_twice:
  assumes dist: "distinct (map fst param_mapping)"
    and first: "populate_sheet round2 master_ws stream_ws param_mapping = Inr once"
  shows "\<exists>twice. populate_sheet round2 once stream_ws param_mapping = Inr twice \<and>
           (\<forall>r. cval (cells twice (r, 3)) = cval (cells once (r, 3)))"
proof (cases "param_mapping = []")
  case True
  then show ?thesis by (simp add: populate_sheet_def)
next
  case False
  let ?stags = "stream_unit_tags stream_ws"
  let ?h = "write_unit_tags 0 ?stags master_ws"
  let ?h' = "write_unit_tags 0 ?stags once"
  obtain trs prs where trs: "stream_tag_to_row stream_ws = Inr trs"
    and prs: "param_rows ?h = Inr prs"
    and once: "once = populate_values round2 stream_ws prs trs ?stags param_mapping 0 (master_unit_tags ?h) ?h"
    using populate_sheet_InrE [OF first False] by blast
  have mr_once: "max_row once = max_row ?h"
    unfolding once using param_rows_le_max_row [OF prs] by (rule max_row_populate_values)
  have mr: "max_row ?h' = max_row ?h"
    by (simp add: max_row_write_unit_tags mr_once)
  have cols: "cells ?h' (r, c) = cells ?h (r, c)" if "c = 1 \<or> c = 2" for r c
  proof -
    have "cells ?h' (r, c) = cells once (r, c)"
      using that by (auto simp add: cells_write_unit_tags)
    also have "\<dots> = cells ?h (r, c)"
      unfolding once using that by (auto simp add: cells_populate_values_before)
    finally show ?thesis .
  qed
  have "param_rows ?h' = param_rows ?h"
    by (rule param_rows_cong [OF mr]) (simp add: cols)
  then have prs': "param_rows ?h' = Inr prs" using prs by simp
  note res = populate_sheet_Inr [OF trs prs' False, of round2]
  have "cval (cells (populate_values round2 stream_ws prs trs ?stags param_mapping 0 (master_unit_tags ?h') ?h') (r, 3))
      = cval (cells once (r, 3))" for r
  proof (cases "\<exists>pair \<in> set param_mapping. prs (fst pair) = Some r \<and> trs (snd pair) \<noteq> None")
    case False
    then have "\<forall>pair \<in> set param_mapping. prs (fst pair) \<noteq> Some r \<or> trs (snd pair) = None"
      by blast
    then show ?thesis
      by (simp add: cells_populate_values_row cells_write_unit_tags)
  next
    case True
    then obtain p t s_row where pair: "(p, t) \<in> set param_mapping"
      and p: "prs p = Some r" and t: "trs t = Some s_row"
      by auto
    let ?u = "cval (cells stream_ws (s_row, 2))"
    have one: "cval (cells once (r, 3)) =
        (if \<exists>unit_tag \<in> set (master_unit_tags ?h). py_in unit_tag ?stags
         then unit_update ?u (cval (cells ?h (r, 3))) else cval (cells ?h (r, 3)))"
      unfolding once
      by (rule cells_populate_values_unit [where p = p and t = t and prs = prs and trs = trs,
            OF param_rows_inj [OF prs] dist pair p t])
    have two: "cval (cells (populate_values round2 stream_ws prs trs ?stags param_mapping 0 (master_unit_tags ?h') ?h') (r, 3)) =
        (if \<exists>unit_tag \<in> set (master_unit_tags ?h'). py_in unit_tag ?stags
         then unit_update ?u (cval (cells ?h' (r, 3))) else cval (cells ?h' (r, 3)))"
      by (rule cells_populate_values_unit [where p = p and t = t and prs = prs and trs = trs,
            OF param_rows_inj [OF prs] dist pair p t])
    have h': "cells ?h' (r, 3) = cells once (r, 3)"
      by (simp add: cells_write_unit_tags)
    show ?thesis
      unfolding two h' matched_column_exists
      using one [unfolded matched_column_exists]
      by (simp add: unit_update_idem)
  qed
  then show ?thesis unfolding res by simp
qed

subsection \<open>All sheets\<close>

lemma populate_sheets_result:
  "distinct names \<Longrightarrow> populate_sheets round2 stream_wb md names wb = Inr wb' \<Longrightarrow>
   sheetnames wb' = sheetnames wb \<and>
   (\<forall>n. n \<notin> set names \<longrightarrow> sheet_of wb' n = sheet_of wb n) \<and>
   (\<forall>n \<in> set names.
      populate_sheet round2 (sheet_of wb n) (sheet_of stream_wb n)
        (case md n of None \<Rightarrow> [] | Some pm \<Rightarrow> pm) = Inr (sheet_of wb' n))"
proof (induction names arbitrary: wb)
  case Nil
  then show ?case by simp
next
  case (Cons eq_type rest)
  let ?pm = "case md eq_type of None \<Rightarrow> [] | Some pm \<Rightarrow> pm"
  obtain ws where ws: "populate_sheet round2 (sheet_of wb eq_type) (sheet_of stream_wb eq_type) ?pm = Inr ws"
    and tail: "populate_sheets round2 stream_wb md rest (wb\<lparr>sheet_of := (sheet_of wb)(eq_type := ws)\<rparr>) = Inr wb'"
    using Cons.prems(2) by (auto simp add: Let_def split: sum.splits)
  have d: "distinct rest" and notin: "eq_type \<notin> set rest" using Cons.prems(1) by simp_all
  note ih = Cons.IH [OF d tail]
  have head: "sheet_of wb' eq_type = ws" using ih notin by simp
  have others: "populate_sheet round2 (sheet_of wb n) (sheet_of stream_wb n)
        (case md n of None \<Rightarrow> [] | Some pm \<Rightarrow> pm) = Inr (sheet_of wb' n)" if "n \<in> set rest" for n
  proof -
    have "n \<noteq> eq_type" using that notin by auto
    then show ?thesis using ih that by fastforce
  qed
  have frame: "sheet_of wb' n = sheet_of wb n" if "n \<notin> set (eq_type # rest)" for n
    using ih that by simp
  show ?case using ih head ws others frame by auto
qed

lemma populate_sheets_total:
  "distinct names \<Longrightarrow>
   \<forall>n \<in> set names. \<exists>ws. populate_sheet round2 (sheet_of wb n) (sheet_of stream_wb n)
        (case md n of None \<Rightarrow> [] | Some pm \<Rightarrow> pm) = Inr ws \<Longrightarrow>
   \<exists>wb'. populate_sheets round2 stream_wb md names wb = Inr wb'"
proof (induction names arbitrary: wb)
  case Nil
  then show ?case by simp
next
  case (Cons eq_type rest)
  let ?pm = "case md eq_type of None \<Rightarrow> [] | Some pm \<Rightarrow> pm"
  obtain ws where ws: "populate_sheet round2 (sheet_of wb eq_type) (sheet_of stream_wb eq_type) ?pm = Inr ws"
    using Cons.prems(2) by auto
  let ?wb = "wb\<lparr>sheet_of := (sheet_of wb)(eq_type := ws)\<rparr>"
  have d: "distinct rest" and notin: "eq_type \<notin> set rest" using Cons.prems(1) by simp_all
  have "\<forall>n \<in> set rest. \<exists>ws. populate_sheet round2 (sheet_of ?wb n) (sheet_of stream_wb n)
        (case md n of None \<Rightarrow> [] | Some pm \<Rightarrow> pm) = Inr ws"
    using Cons.prems(2) notin by auto
  from Cons.IH [OF d this] show ?case using ws by (simp add: Let_def)
qed

lemma missing_sheets_exact:
  assumes "\<forall>names. set (set_order names) = set names \<and> (distinct names \<longrightarrow> distinct (set_order names))"
  shows "set (missing_sheets set_order master_wb stream_wb) =
           set (sheetnames master_wb) - set (sheetnames stream_wb) \<and>
         distinct (missing_sheets set_order master_wb stream_wb)"
  using assms by (auto simp add: missing_sheets_def master_minus_stream_def)

subsection \<open>The example sheets\<close>

lemma ex_stream_rows_ok: "\<not> isl (stream_tag_to_row ex_stream)"
  by code_simp

lemma ex_master_rows_ok: "\<not> isl (param_rows (write_unit_tags 0 (stream_unit_tags ex_stream) ex_master))"
  by code_simp

lemma ex_flow_row:
  "projr (param_rows (write_unit_tags 0 (stream_unit_tags ex_stream) ex_master)) (py ''Flow Rate'') = Some 6"
  by code_simp

lemma ex_tag_row: "projr (stream_tag_to_row ex_stream) (py ''FT-101'') = Some 3"
  by code_simp

lemma ex_head_row:
  "projr (param_rows (write_unit_tags 0 (stream_unit_tags ex_stream) ex_master)) (py ''Head'') = None"
  by code_simp

section \<open>The claims\<close>

text \<open>
  C1, as stated, fails. In \<open>ex_master\<close> the header of column 4 is the unit tag \<open>X\<close>,
  which the streamtable sheet \<open>ex_stream\<close> (header \<open>A\<close>) does not have. The pass does
  not skip that column: the header loop writes \<open>A\<close> over \<open>X\<close> before the master
  header is read, and the value of tag \<open>A\<close> is then written into row 6 of column 4.
\<close>

theorem master_tag_column_overwritten:
  "master_unit_tags ex_master = [PStr (py ''X''), PStr (py ''Y'')] \<and>
   \<not> py_in (PStr (py ''X'')) (stream_unit_tags ex_stream) \<and>
   \<not> isl (populate_sheet round_hundredths ex_master ex_stream ex_mapping) \<and>
   cval (cells ex_master (3, 4)) = PStr (py ''X'') \<and>
   cval (cells (projr (populate_sheet round_hundredths ex_master ex_stream ex_mapping)) (3, 4)) = PStr (py ''A'') \<and>
   cval (cells ex_master (6, 4)) = PInt 1 \<and>
   cval (cells (projr (populate_sheet round_hundredths ex_master ex_stream ex_mapping)) (6, 4)) = PFloat (1235 / 100)"
  by code_simp

text \<open>
  C1, amended. Let \<open>n\<close> be the number of streamtable unit tags, so that the header loop
  writes the header cells of columns 4 to \<open>3 + n\<close>. Take a column \<open>c\<close> of the master
  sheet beyond those, within the sheet's extent, whose header cell in row 3 holds a unit
  tag that is not in the streamtable unit-tag list, with no empty header cell from
  column \<open>4 + n\<close> up to \<open>c\<close>. When the two lookups are built without error, the pass
  returns a sheet (it raises nothing) and every cell of column \<open>c\<close> in it, the header
  cell included, is the cell of the master sheet that was passed in.
\<close>

theorem unmatched_tag_column_untouched:
  assumes trs: "stream_tag_to_row stream_ws = Inr trs"
    and prs: "param_rows (write_unit_tags 0 (stream_unit_tags stream_ws) master_ws) = Inr prs"
    and beyond: "4 + length (stream_unit_tags stream_ws) \<le> c"
    and inside: "c \<le> max_column master_ws"
    and run: "\<forall>c'. 4 + length (stream_unit_tags stream_ws) \<le> c' \<and> c' \<le> c \<longrightarrow>
                truthy (cval (cells master_ws (3, c')))"
    and unmatched: "\<not> py_in (cval (cells master_ws (3, c))) (stream_unit_tags stream_ws)"
  shows "\<exists>result. populate_sheet round2 master_ws stream_ws param_mapping = Inr result \<and>
           (\<forall>r. cells result (r, c) = cells master_ws (r, c))"
proof -
  let ?stags = "stream_unit_tags stream_ws"
  let ?m1 = "write_unit_tags 0 ?stags master_ws"
  have c4: "4 \<le> c" using beyond by simp
  have mc: "c \<le> max_column ?m1"
    using inside by (auto simp add: max_column_write_unit_tags)
  have truthy_all: "\<forall>c'. 4 \<le> c' \<and> c' \<le> c \<longrightarrow> truthy (cval (cells ?m1 (3, c')))"
  proof (intro allI impI)
    fix c' assume range: "4 \<le> c' \<and> c' \<le> c"
    show "truthy (cval (cells ?m1 (3, c')))"
    proof (cases "c' < 4 + length ?stags")
      case True
      then have "c' - 4 < length ?stags" using range by arith
      then have "truthy (?stags ! (c' - 4))"
        using truthy_header_tags [of stream_ws 1] by (simp add: stream_unit_tags_def)
      then show ?thesis using True range by (simp add: cells_write_unit_tags)
    next
      case False
      then show ?thesis using range run by (simp add: cells_write_unit_tags)
    qed
  qed
  have same: "cells ?m1 (3, c) = cells master_ws (3, c)"
    using beyond by (simp add: cells_write_unit_tags)
  note pos = header_tags_nth [OF c4 mc truthy_all]
  have col: "c - 4 < length (master_unit_tags ?m1)"
    using pos by (simp add: master_unit_tags_def)
  have tag: "master_unit_tags ?m1 ! (c - 4) = cval (cells master_ws (3, c))"
    using pos same by (simp add: master_unit_tags_def)
  have un: "\<not> py_in (master_unit_tags ?m1 ! (c - 4)) ?stags"
    using unmatched tag by simp
  show ?thesis
    using unmatched_position_untouched [OF trs prs col un, of round2 param_mapping] c4 by simp
qed

text \<open>
  C1, at a concrete sheet: \<open>ex_master\<close> has the unmatched tag \<open>Y\<close> in column 5, one
  column beyond the single streamtable tag; column 5 comes out as it went in.
\<close>

theorem unmatched_tag_column_untouched_witness:
  "4 + length (stream_unit_tags ex_stream) \<le> 5 \<and>
   cval (cells ex_master (3, 5)) = PStr (py ''Y'') \<and>
   \<not> py_in (PStr (py ''Y'')) (stream_unit_tags ex_stream) \<and>
   (\<exists>result. populate_sheet round_hundredths ex_master ex_stream ex_mapping = Inr result \<and>
      (\<forall>r. cells result (r, 5) = cells ex_master (r, 5)))"
proof -
  let ?m1 = "write_unit_tags 0 (stream_unit_tags ex_stream) ex_master"
  have trs: "stream_tag_to_row ex_stream = Inr (projr (stream_tag_to_row ex_stream))"
    using ex_stream_rows_ok by simp
  have prs: "param_rows ?m1 = Inr (projr (param_rows ?m1))"
    using ex_master_rows_ok by simp
  have n: "length (stream_unit_tags ex_stream) = 1" by code_simp
  have beyond: "4 + length (stream_unit_tags ex_stream) \<le> 5" using n by simp
  have inside: "(5::nat) \<le> max_column ex_master" by code_simp
  have y: "cval (cells ex_master (3, 5)) = PStr (py ''Y'')" by code_simp
  have ty: "truthy (cval (cells ex_master (3, 5)))" by code_simp
  have filled: "\<forall>c'. 4 + length (stream_unit_tags ex_stream) \<le> c' \<and> c' \<le> 5 \<longrightarrow>
      truthy (cval (cells ex_master (3, c')))"
  proof (intro allI impI)
    fix c' :: nat assume "4 + length (stream_unit_tags ex_stream) \<le> c' \<and> c' \<le> 5"
    then have "c' = 5" using n by simp
    then show "truthy (cval (cells ex_master (3, c')))" using ty by simp
  qed
  have unmatched: "\<not> py_in (PStr (py ''Y'')) (stream_unit_tags ex_stream)" by code_simp
  have unmatched': "\<not> py_in (cval (cells ex_master (3, 5))) (stream_unit_tags ex_stream)"
    using unmatched y by simp
  show ?thesis
    using unmatched_tag_column_untouched [OF trs prs beyond inside filled unmatched',
        of round_hundredths ex_mapping] beyond y unmatched
    by blast
qed

text \<open>
  C2. Let \<open>populate_syscad_inputs\<close> return, and take a sheet name present in both
  workbooks whose mapping entry is non-empty (the iteration of a set visiting exactly
  its elements, each once). The header loop writes the streamtable unit tags, in
  streamtable order, into row 3 of that master sheet from column 4 on, bold and
  bordered; the master unit-tag list read from the sheet so written starts with the
  streamtable tags; and the sheet of that name in the returned workbook is the result
  of the value loop run on the written sheet, with the lookups and the master tags
  taken from it. Unless row 3 is itself the row of a mapped parameter, the header cells
  are still as the header loop wrote them in the returned workbook.
\<close>

theorem header_row_overwritten_first:
  assumes order: "\<forall>names. set (set_order names) = set names \<and>
                    (distinct names \<longrightarrow> distinct (set_order names))"
    and in_master: "eq_type \<in> set (sheetnames master_wb)"
    and in_stream: "eq_type \<in> set (sheetnames stream_wb)"
    and mapped: "mapping_dict eq_type = Some param_mapping"
    and ne: "param_mapping \<noteq> []"
    and run: "populate_syscad_inputs round2 set_order master_wb stream_wb mapping_dict = Inr (result, missing)"
  shows "(\<forall>i < length (stream_unit_tags (sheet_of stream_wb eq_type)).
            cells (write_unit_tags 0 (stream_unit_tags (sheet_of stream_wb eq_type)) (sheet_of master_wb eq_type))
              (3, 4 + i) =
            \<lparr>cval = stream_unit_tags (sheet_of stream_wb eq_type) ! i, bold = True, thin = True\<rparr>) \<and>
         take (length (stream_unit_tags (sheet_of stream_wb eq_type)))
           (master_unit_tags
              (write_unit_tags 0 (stream_unit_tags (sheet_of stream_wb eq_type)) (sheet_of master_wb eq_type))) =
           stream_unit_tags (sheet_of stream_wb eq_type) \<and>
         (\<exists>trs prs.
            stream_tag_to_row (sheet_of stream_wb eq_type) = Inr trs \<and>
            param_rows
              (write_unit_tags 0 (stream_unit_tags (sheet_of stream_wb eq_type)) (sheet_of master_wb eq_type)) =
              Inr prs \<and>
            sheet_of result eq_type =
              populate_values round2 (sheet_of stream_wb eq_type) prs trs
                (stream_unit_tags (sheet_of stream_wb eq_type)) param_mapping 0
                (master_unit_tags
                   (write_unit_tags 0 (stream_unit_tags (sheet_of stream_wb eq_type)) (sheet_of master_wb eq_type)))
                (write_unit_tags 0 (stream_unit_tags (sheet_of stream_wb eq_type)) (sheet_of master_wb eq_type)) \<and>
            ((\<forall>pair \<in> set param_mapping. prs (fst pair) \<noteq> Some 3 \<or> trs (snd pair) = None) \<longrightarrow>
               (\<forall>i < length (stream_unit_tags (sheet_of stream_wb eq_type)).
                  cells (sheet_of result eq_type) (3, 4 + i) =
                  \<lparr>cval = stream_unit_tags (sheet_of stream_wb eq_type) ! i, bold = True, thin = True\<rparr>)))"
proof -
  let ?s = "sheet_of stream_wb eq_type"
  let ?m = "sheet_of master_wb eq_type"
  let ?stags = "stream_unit_tags ?s"
  let ?m1 = "write_unit_tags 0 ?stags ?m"
  let ?names = "set_order (common_sheets master_wb stream_wb)"
  have d: "distinct ?names" using order by (simp add: common_sheets_def)
  have mem: "eq_type \<in> set ?names"
    using order in_master in_stream by (simp add: common_sheets_def)
  have pass: "populate_sheets round2 stream_wb mapping_dict ?names master_wb = Inr result"
    using run by (auto simp add: populate_syscad_inputs_def Let_def split: sum.splits)
  have "populate_sheet round2 ?m ?s (case mapping_dict eq_type of None \<Rightarrow> [] | Some pm \<Rightarrow> pm)
      = Inr (sheet_of result eq_type)"
    using populate_sheets_result [OF d pass] mem by blast
  then have ps: "populate_sheet round2 ?m ?s param_mapping = Inr (sheet_of result eq_type)"
    using mapped by simp
  obtain trs prs where trs: "stream_tag_to_row ?s = Inr trs"
    and prs: "param_rows ?m1 = Inr prs"
    and res: "sheet_of result eq_type =
        populate_values round2 ?s prs trs ?stags param_mapping 0 (master_unit_tags ?m1) ?m1"
    using populate_sheet_InrE [OF ps ne] by blast
  have header: "\<forall>i < length ?stags. cells ?m1 (3, 4 + i) = \<lparr>cval = ?stags ! i, bold = True, thin = True\<rparr>"
    by (simp add: cells_write_unit_tags)
  obtain rest where "master_unit_tags ?m1 = ?stags @ rest"
    using master_unit_tags_after_write by blast
  then have prefix: "take (length ?stags) (master_unit_tags ?m1) = ?stags" by simp
  have final: "\<forall>i < length ?stags.
      cells (sheet_of result eq_type) (3, 4 + i) = \<lparr>cval = ?stags ! i, bold = True, thin = True\<rparr>"
    if "\<forall>pair \<in> set param_mapping. prs (fst pair) \<noteq> Some 3 \<or> trs (snd pair) = None"
    unfolding res using cells_populate_values_row [OF that] header by simp
  show ?thesis
  proof (intro conjI)
    show "\<forall>i < length ?stags. cells ?m1 (3, 4 + i) = \<lparr>cval = ?stags ! i, bold = True, thin = True\<rparr>"
      by (rule header)
    show "take (length ?stags) (master_unit_tags ?m1) = ?stags"
      by (rule prefix)
    show "\<exists>trs prs.
            stream_tag_to_row ?s = Inr trs \<and> param_rows ?m1 = Inr prs \<and>
            sheet_of result eq_type =
              populate_values round2 ?s prs trs ?stags param_mapping 0 (master_unit_tags ?m1) ?m1 \<and>
            ((\<forall>pair \<in> set param_mapping. prs (fst pair) \<noteq> Some 3 \<or> trs (snd pair) = None) \<longrightarrow>
               (\<forall>i < length ?stags.
                  cells (sheet_of result eq_type) (3, 4 + i) =
                  \<lparr>cval = ?stags ! i, bold = True, thin = True\<rparr>))"
    proof (rule exI [of _ trs], rule exI [of _ prs], intro conjI impI)
      show "stream_tag_to_row ?s = Inr trs" by (rule trs)
      show "param_rows ?m1 = Inr prs" by (rule prs)
      show "sheet_of result eq_type =
              populate_values round2 ?s prs trs ?stags param_mapping 0 (master_unit_tags ?m1) ?m1"
        by (rule res)
      assume "\<forall>pair \<in> set param_mapping. prs (fst pair) \<noteq> Some 3 \<or> trs (snd pair) = None"
      then show "\<forall>i < length ?stags.
                  cells (sheet_of result eq_type) (3, 4 + i) =
                  \<lparr>cval = ?stags ! i, bold = True, thin = True\<rparr>"
        by (rule final)
    qed
  qed
qed

text \<open>
  C2, at a concrete workbook: in the workbook returned for \<open>ex_master_wb\<close>, cell (3, 4)
  of sheet \<open>Pump-101\<close> holds the streamtable tag \<open>A\<close>, bold and bordered, where the
  master had \<open>X\<close>.
\<close>

theorem header_row_overwritten_first_witness:
  "\<not> isl (populate_syscad_inputs round_hundredths id ex_master_wb ex_stream_wb ex_mapping_dict) \<and>
   stream_unit_tags ex_stream = [PStr (py ''A'')] \<and>
   cells (sheet_of
            (fst (projr (populate_syscad_inputs round_hundredths id ex_master_wb ex_stream_wb ex_mapping_dict)))
            (py ''Pump-101'')) (3, 4) =
     \<lparr>cval = PStr (py ''A''), bold = True, thin = True\<rparr> \<and>
   take 1 (master_unit_tags (write_unit_tags 0 (stream_unit_tags ex_stream) ex_master)) = [PStr (py ''A'')]"
proof -
  let ?R = "populate_syscad_inputs round_hundredths id ex_master_wb ex_stream_wb ex_mapping_dict"
  let ?m1 = "write_unit_tags 0 (stream_unit_tags ex_stream) ex_master"
  have ok: "\<not> isl ?R" by code_simp
  then have run: "?R = Inr (fst (projr ?R), snd (projr ?R))" by simp
  have order: "\<forall>names :: pystr list. set (id names) = set names \<and> (distinct names \<longrightarrow> distinct (id names))"
    by simp
  have in_master: "py ''Pump-101'' \<in> set (sheetnames ex_master_wb)" by code_simp
  have in_stream: "py ''Pump-101'' \<in> set (sheetnames ex_stream_wb)" by code_simp
  have mapped: "ex_mapping_dict (py ''Pump-101'') = Some ex_mapping"
    by (simp add: ex_mapping_dict_def)
  have ne: "ex_mapping \<noteq> []" by (simp add: ex_mapping_def)
  have sm: "sheet_of ex_master_wb (py ''Pump-101'') = ex_master" by (simp add: ex_master_wb_def)
  have ss: "sheet_of ex_stream_wb (py ''Pump-101'') = ex_stream" by (simp add: ex_stream_wb_def)
  have tags: "stream_unit_tags ex_stream = [PStr (py ''A'')]" by code_simp
  note inst = header_row_overwritten_first [OF order in_master in_stream mapped ne run, unfolded sm ss]
  from inst obtain trs prs where prs: "param_rows ?m1 = Inr prs"
    and final: "(\<forall>pair \<in> set ex_mapping. prs (fst pair) \<noteq> Some 3 \<or> trs (snd pair) = None) \<longrightarrow>
       (\<forall>i < length (stream_unit_tags ex_stream).
          cells (sheet_of (fst (projr ?R)) (py ''Pump-101'')) (3, 4 + i) =
          \<lparr>cval = stream_unit_tags ex_stream ! i, bold = True, thin = True\<rparr>)"
    by blast
  from inst have prefix: "take (length (stream_unit_tags ex_stream)) (master_unit_tags ?m1)
      = stream_unit_tags ex_stream"
    by blast
  have prs_eq: "prs = projr (param_rows ?m1)" using prs by simp
  have pairs: "set ex_mapping = {(py ''Flow Rate'', py ''FT-101''), (py ''Head'', py ''FT-999'')}"
    by (simp add: ex_mapping_def)
  have "\<forall>pair \<in> set ex_mapping. prs (fst pair) \<noteq> Some 3 \<or> trs (snd pair) = None"
    unfolding prs_eq pairs using ex_flow_row ex_head_row by simp
  with final have "\<forall>i < length (stream_unit_tags ex_stream).
          cells (sheet_of (fst (projr ?R)) (py ''Pump-101'')) (3, 4 + i) =
          \<lparr>cval = stream_unit_tags ex_stream ! i, bold = True, thin = True\<rparr>"
    by blast
  then have "cells (sheet_of (fst (projr ?R)) (py ''Pump-101'')) (3, 4 + 0) =
          \<lparr>cval = stream_unit_tags ex_stream ! 0, bold = True, thin = True\<rparr>"
    unfolding tags by simp
  then have cell: "cells (sheet_of (fst (projr ?R)) (py ''Pump-101'')) (3, 4) =
          \<lparr>cval = PStr (py ''A''), bold = True, thin = True\<rparr>"
    unfolding tags by simp
  have "take 1 (master_unit_tags ?m1) = [PStr (py ''A'')]"
    using prefix unfolding tags by simp
  then show ?thesis using ok tags cell by blast
qed

text \<open>
  C3. The header collection does not stop at the first empty cell: it keeps every truthy
  cell of the row. In \<open>gap_stream\<close> the header cell of column 5 is empty and column 6
  holds tag \<open>B\<close>; \<open>B\<close> is collected at position 1 although it lives in column 6. The
  value loop still takes position 1 for column 5: the master column headed \<open>B\<close> never
  receives the value 3 that the streamtable has for \<open>B\<close> and keeps its old content.
\<close>

theorem header_gap_shifts_columns:
  "stream_unit_tags gap_stream = [PStr (py ''A''), PStr (py ''B'')] \<and>
   cval (cells gap_stream (1, 5)) = PNone \<and>
   cval (cells gap_stream (1, 6)) = PStr (py ''B'') \<and>
   py_index (PStr (py ''B'')) (stream_unit_tags gap_stream) + 4 = 5 \<and>
   \<not> isl (populate_sheet round_hundredths ex_master gap_stream ex_mapping) \<and>
   cval (cells (projr (populate_sheet round_hundredths ex_master gap_stream ex_mapping)) (3, 5)) = PStr (py ''B'') \<and>
   cval (cells gap_stream (3, 6)) = PInt 3 \<and>
   cval (cells (projr (populate_sheet round_hundredths ex_master gap_stream ex_mapping)) (6, 5)) = PInt 7"
  by code_simp

text \<open>
  C4. The returned list of missing sheets is the set difference turned into a list, in
  whatever order the set is iterated; nothing sorts it. With the order that keeps the
  sheets as the master workbook lists them, the result for \<open>ex_master_wb\<close> is
  \<open>Pump-B, Pump-A\<close>, which is not sorted.
\<close>

theorem missing_sheets_not_sorted:
  "\<not> isl (populate_syscad_inputs round_hundredths id ex_master_wb ex_stream_wb ex_mapping_dict) \<and>
   snd (projr (populate_syscad_inputs round_hundredths id ex_master_wb ex_stream_wb ex_mapping_dict))
     = [(py ''Pump-B''), (py ''Pump-A'')] \<and>
   \<not> sorted (snd (projr (populate_syscad_inputs round_hundredths id ex_master_wb ex_stream_wb ex_mapping_dict)))"
  by code_simp

text \<open>
  C5, as stated, fails. In \<open>dup_master\<close> rows 2 and 3 of the block carry the same
  parameter name once stripped; the lookup records row 3, the later one, and the scan
  does not fail.
\<close>

theorem duplicate_parameter_first_row_lost:
  "cval (cells dup_master (2, 2)) = PStr (py ''Flow Rate'') \<and>
   cval (cells dup_master (3, 2)) = PStr (py '' Flow Rate '') \<and>
   strip (py '' Flow Rate '') = (py ''Flow Rate'') \<and>
   \<not> isl (param_rows dup_master) \<and>
   projr (param_rows dup_master) (py ''Flow Rate'') = Some 3"
  by code_simp

text \<open>
  C5, amended: the last occurrence in the block wins. The block runs from \<open>r0\<close>, the
  first row whose label contains \<open>SysCAD Inputs\<close>, to \<open>e\<close>: no row from \<open>r0\<close> to \<open>e\<close>
  has a label containing \<open>Engineering Inputs\<close>, and \<open>e\<close> is the last row of the sheet or
  the row after it has such a label. Let rows \<open>r1 < r2\<close> of the block carry the same
  stripped parameter name and no row of the block after \<open>r2\<close> carry it. If every
  non-empty name cell of the block is a string, the scan returns a lookup (the
  duplicate does not make it fail) and the lookup maps the name to \<open>r2\<close>, not to
  \<open>r1\<close>. What stands in the rows after the block does not matter.
\<close>

theorem duplicate_parameter_last_wins:
  assumes r0: "1 \<le> r0" "r0 \<le> r1" "r1 < r2" "r2 \<le> e" "e \<le> max_row ws"
    and label: "label_has (py ''SysCAD Inputs'') (cval (cells ws (r0, 1)))"
    and before: "\<forall>r. 1 \<le> r \<and> r < r0 \<longrightarrow> \<not> label_has (py ''SysCAD Inputs'') (cval (cells ws (r, 1)))"
    and no_close: "\<forall>r. r0 \<le> r \<and> r \<le> e \<longrightarrow> \<not> label_has (py ''Engineering Inputs'') (cval (cells ws (r, 1)))"
    and block_end: "e = max_row ws \<or> label_has (py ''Engineering Inputs'') (cval (cells ws (Suc e, 1)))"
    and n1: "cval (cells ws (r1, 2)) = PStr s1" "s1 \<noteq> []"
    and n2: "cval (cells ws (r2, 2)) = PStr s2" "s2 \<noteq> []" "strip s2 = strip s1"
    and later: "\<forall>r. r2 < r \<and> r \<le> e \<longrightarrow>
            (\<forall>s. cval (cells ws (r, 2)) = PStr s \<longrightarrow> s \<noteq> [] \<longrightarrow> strip s \<noteq> strip s1)"
    and strs: "\<forall>r. r0 \<le> r \<and> r \<le> e \<longrightarrow> truthy (cval (cells ws (r, 2))) \<longrightarrow>
            (\<exists>s. cval (cells ws (r, 2)) = PStr s)"
  shows "\<exists>prs. param_rows ws = Inr prs \<and> prs (strip s1) = Some r2 \<and> prs (strip s1) \<noteq> Some r1"
proof -
  let ?n = "max_row ws"
  let ?tail = "[Suc e..<Suc ?n]"
  have rows_a: "[1..<Suc ?n] = [1..<r2] @ r2 # [Suc r2..<Suc ?n]"
    by (rule upt_split) (use r0 in simp_all)
  have rows_b: "[1..<r2] = [1..<r0] @ [r0..<r2]"
    using upt_add_eq_append [of 1 r0 "r2 - r0"] r0 by simp
  have rows_c: "[Suc r2..<Suc ?n] = [Suc r2..<Suc e] @ ?tail"
    using upt_add_eq_append [of "Suc r2" "Suc e" "?n - e"] r0 by simp
  have rows: "[1..<Suc ?n] = [1..<r0] @ [r0..<r2] @ r2 # [Suc r2..<Suc e] @ ?tail"
    unfolding rows_a rows_b rows_c by simp
  have pre: "\<forall>r \<in> set [1..<r0]. \<not> label_has (py ''SysCAD Inputs'') (cval (cells ws (r, 1)))"
    using before by simp
  have r0_lt: "r0 < r2" using r0 by simp
  have mid_rows: "[r0..<r2] = r0 # [Suc r0..<r2]" using r0_lt by (rule upt_conv_Cons)
  let ?rest = "r2 # [Suc r2..<Suc e] @ ?tail"
  have no_close_r0: "\<not> label_has (py ''Engineering Inputs'') (cval (cells ws (r0, 1)))"
    using no_close r0 by simp
  have "truthy (cval (cells ws (r0, 2))) \<longrightarrow> (\<exists>s. cval (cells ws (r0, 2)) = PStr s)"
    using strs r0 by simp
  with label no_close_r0
  have "\<exists>acc1. scan_param_rows ws (r0 # [Suc r0..<r2] @ ?rest) False Map.empty
      = scan_param_rows ws ([Suc r0..<r2] @ ?rest) True acc1"
    by (rule scan_param_rows_open_any)
  then obtain acc1 where acc1: "scan_param_rows ws (r0 # [Suc r0..<r2] @ ?rest) False Map.empty
      = scan_param_rows ws ([Suc r0..<r2] @ ?rest) True acc1" by blast
  have "\<forall>r \<in> set [Suc r0..<r2]. \<not> label_has (py ''Engineering Inputs'') (cval (cells ws (r, 1))) \<and>
      (truthy (cval (cells ws (r, 2))) \<longrightarrow> (\<exists>s. cval (cells ws (r, 2)) = PStr s))"
    using no_close strs r0 by simp
  then obtain acc2 where acc2: "scan_param_rows ws ([Suc r0..<r2] @ ?rest) True acc1
      = scan_param_rows ws ?rest True acc2"
    using scan_param_rows_inside [of "[Suc r0..<r2]" ws ?rest acc1] by blast
  have no_close_r2: "\<not> label_has (py ''Engineering Inputs'') (cval (cells ws (r2, 1)))"
    using no_close r0 by simp
  have at_r2: "scan_param_rows ws ?rest True acc2
      = scan_param_rows ws ([Suc r2..<Suc e] @ ?tail) True (acc2(strip s2 \<mapsto> r2))"
    using no_close_r2 n2(1,2) by (rule scan_param_rows_inside_row)
  have block: "\<forall>r \<in> set [Suc r2..<Suc e].
      \<not> label_has (py ''Engineering Inputs'') (cval (cells ws (r, 1))) \<and>
      (truthy (cval (cells ws (r, 2))) \<longrightarrow> (\<exists>s. cval (cells ws (r, 2)) = PStr s \<and> strip s \<noteq> strip s1))"
  proof (intro ballI conjI impI)
    fix r assume r: "r \<in> set [Suc r2..<Suc e]"
    then have range: "r2 < r \<and> r \<le> e" and range0: "r0 \<le> r \<and> r \<le> e" using r0 by auto
    show "\<not> label_has (py ''Engineering Inputs'') (cval (cells ws (r, 1)))"
      using no_close range0 by blast
    assume tr: "truthy (cval (cells ws (r, 2)))"
    then obtain s where s: "cval (cells ws (r, 2)) = PStr s" using strs range0 by blast
    then have "s \<noteq> []" using tr by auto
    then show "\<exists>s. cval (cells ws (r, 2)) = PStr s \<and> strip s \<noteq> strip s1"
      using later range s by blast
  qed
  have tail: "?tail = [] \<or> label_has (py ''Engineering Inputs'') (cval (cells ws (hd ?tail, 1)))"
  proof (cases "e = ?n")
    case True
    then show ?thesis by simp
  next
    case False
    then have "e < ?n" using r0 by simp
    then have "Suc e < Suc ?n" by simp
    then have "?tail = Suc e # [Suc (Suc e)..<Suc ?n]" by (rule upt_conv_Cons)
    then have hd_eq: "hd ?tail = Suc e" by (simp only: list.sel)
    have "label_has (py ''Engineering Inputs'') (cval (cells ws (Suc e, 1)))"
      using block_end False by blast
    then show ?thesis unfolding hd_eq by (rule disjI2)
  qed
  obtain prs where prs: "scan_param_rows ws ([Suc r2..<Suc e] @ ?tail) True (acc2(strip s2 \<mapsto> r2)) = Inr prs"
      "prs (strip s1) = (acc2(strip s2 \<mapsto> r2)) (strip s1)"
    using scan_param_rows_block_tail [OF block tail, of "acc2(strip s2 \<mapsto> r2)"] by blast
  have "param_rows ws = Inr prs"
    unfolding param_rows_def rows
    using scan_param_rows_before_open [OF pre] acc1 acc2 at_r2 prs(1) mid_rows by simp
  moreover have "prs (strip s1) = Some r2" using prs(2) n2(3) by simp
  ultimately show ?thesis using r0(3) by auto
qed

text \<open>
  C5, at a concrete sheet: in \<open>dup_master_tail\<close> the block is rows 1 to 3; row 3 carries
  the name of row 2 behind a no-break space (U+00A0) and before a blank, and the name
  stands once more in row 5, after the closing label. The lookup records row 3.
\<close>

theorem duplicate_parameter_last_wins_witness:
  "cval (cells dup_master_tail (5, 2)) = PStr (py ''Flow Rate'') \<and>
   (\<exists>prs. param_rows dup_master_tail = Inr prs \<and> prs (py ''Flow Rate'') = Some 3 \<and>
      prs (py ''Flow Rate'') \<noteq> Some 2)"
proof -
  have mr: "max_row dup_master_tail = 6" by code_simp
  have label: "label_has (py ''SysCAD Inputs'') (cval (cells dup_master_tail (1, 1)))" by code_simp
  have before: "\<forall>r. 1 \<le> r \<and> r < 1 \<longrightarrow>
      \<not> label_has (py ''SysCAD Inputs'') (cval (cells dup_master_tail (r, 1)))"
    by simp
  have labels: "\<not> label_has (py ''Engineering Inputs'') (cval (cells dup_master_tail (1, 1)))"
    "\<not> label_has (py ''Engineering Inputs'') (cval (cells dup_master_tail (2, 1)))"
    "\<not> label_has (py ''Engineering Inputs'') (cval (cells dup_master_tail (3, 1)))"
    by code_simp+
  have no_close: "\<forall>r. 1 \<le> r \<and> r \<le> 3 \<longrightarrow>
      \<not> label_has (py ''Engineering Inputs'') (cval (cells dup_master_tail (r, 1)))"
  proof (intro allI impI)
    fix r :: nat assume "1 \<le> r \<and> r \<le> 3"
    then have "r = 1 \<or> r = 2 \<or> r = 3" by arith
    then show "\<not> label_has (py ''Engineering Inputs'') (cval (cells dup_master_tail (r, 1)))"
      using labels by blast
  qed
  have block_end: "3 = max_row dup_master_tail \<or>
      label_has (py ''Engineering Inputs'') (cval (cells dup_master_tail (Suc 3, 1)))"
    by code_simp
  have n1: "cval (cells dup_master_tail (1, 2)) = PNone" by code_simp
  have n2: "cval (cells dup_master_tail (2, 2)) = PStr (py ''Flow Rate'')" by code_simp
  have n3: "cval (cells dup_master_tail (3, 2)) = PStr (160 # py ''Flow Rate '')" by code_simp
  have n5: "cval (cells dup_master_tail (5, 2)) = PStr (py ''Flow Rate'')" by code_simp
  have ne2: "py ''Flow Rate'' \<noteq> []" by code_simp
  have same: "strip (160 # py ''Flow Rate '') = strip (py ''Flow Rate'')" by code_simp
  have later: "\<forall>r. 3 < r \<and> r \<le> 3 \<longrightarrow>
      (\<forall>s. cval (cells dup_master_tail (r, 2)) = PStr s \<longrightarrow> s \<noteq> [] \<longrightarrow> strip s \<noteq> strip (py ''Flow Rate''))"
    by auto
  have strs: "\<forall>r. 1 \<le> r \<and> r \<le> 3 \<longrightarrow> truthy (cval (cells dup_master_tail (r, 2))) \<longrightarrow>
      (\<exists>s. cval (cells dup_master_tail (r, 2)) = PStr s)"
  proof (intro allI impI)
    fix r :: nat
    assume "1 \<le> r \<and> r \<le> 3" and t: "truthy (cval (cells dup_master_tail (r, 2)))"
    then have "r = 1 \<or> r = 2 \<or> r = 3" by arith
    then show "\<exists>s. cval (cells dup_master_tail (r, 2)) = PStr s"
      using t n1 n2 n3 by auto
  qed
  have le: "(3::nat) \<le> max_row dup_master_tail" using mr by simp
  have st: "strip (py ''Flow Rate'') = py ''Flow Rate''" by code_simp
  have "\<exists>prs. param_rows dup_master_tail = Inr prs \<and> prs (strip (py ''Flow Rate'')) = Some 3 \<and>
      prs (strip (py ''Flow Rate'')) \<noteq> Some 2"
    by (rule duplicate_parameter_last_wins [of 1 2 3 3 dup_master_tail "py ''Flow Rate''" "160 # py ''Flow Rate ''",
          OF _ _ _ _ le label before no_close block_end n2 ne2 n3 _ same later strs])
      simp_all
  then show ?thesis unfolding st using n5 by blast
qed

text \<open>
  C6, as stated, fails. In \<open>label_row_master\<close> row 1 carries the label
  \<open>SysCAD Inputs\<close> in column 1 and a parameter name in column 2. Both scans treat row 1
  as a parameter row: the name heads the extracted list and the lookup maps it to row 1.
\<close>

theorem opening_row_parameter_collected:
  "label_has (py ''SysCAD Inputs'') (cval (cells label_row_master (1, 1))) \<and>
   cval (cells label_row_master (1, 2)) = PStr (py ''Flow Rate'') \<and>
   extract_syscad_params label_row_master = Inr [(py ''Flow Rate''), (py ''Head'')] \<and>
   \<not> isl (param_rows label_row_master) \<and>
   projr (param_rows label_row_master) (py ''Flow Rate'') = Some 1"
  by code_simp

text \<open>
  C6, amended: the opening row is itself a parameter row. If \<open>r0\<close> is the first row
  whose label contains \<open>SysCAD Inputs\<close>, its label does not also contain
  \<open>Engineering Inputs\<close>, and its column-2 cell is a non-empty string, then the stripped
  name is the first element of the list \<open>extract_syscad_params\<close> returns and is a key of
  the lookup \<open>param_rows\<close> returns.
\<close>

theorem opening_row_is_parameter_row:
  assumes r0: "1 \<le> r0" "r0 \<le> max_row ws"
    and "label_has (py ''SysCAD Inputs'') (cval (cells ws (r0, 1)))"
    and "\<forall>r. 1 \<le> r \<and> r < r0 \<longrightarrow> \<not> label_has (py ''SysCAD Inputs'') (cval (cells ws (r, 1)))"
    and "\<not> label_has (py ''Engineering Inputs'') (cval (cells ws (r0, 1)))"
    and "cval (cells ws (r0, 2)) = PStr s" "s \<noteq> []"
  shows "(\<forall>params. extract_syscad_params ws = Inr params \<longrightarrow> params \<noteq> [] \<and> hd params = strip s) \<and>
         (\<forall>prs. param_rows ws = Inr prs \<longrightarrow> prs (strip s) \<noteq> None)"
proof -
  let ?n = "max_row ws"
  have rows: "[1..<Suc ?n] = [1..<r0] @ r0 # [Suc r0..<Suc ?n]"
    by (rule upt_split) (use r0 in simp_all)
  have pre: "\<forall>r \<in> set [1..<r0]. \<not> label_has (py ''SysCAD Inputs'') (cval (cells ws (r, 1)))"
    using assms(4) by simp
  have e: "extract_syscad_params ws = scan_params ws [Suc r0..<Suc ?n] True [strip s]"
    unfolding extract_syscad_params_def rows
    using scan_params_before_open [OF pre] scan_params_open_row [OF assms(3,5,6,7)] by simp
  have p: "param_rows ws = scan_param_rows ws [Suc r0..<Suc ?n] True [strip s \<mapsto> r0]"
    unfolding param_rows_def rows
    using scan_param_rows_before_open [OF pre] scan_param_rows_open_row [OF assms(3,5,6,7)] by simp
  have "params \<noteq> [] \<and> hd params = strip s" if "extract_syscad_params ws = Inr params" for params
  proof -
    have "prefix [strip s] params" using that e scan_params_prefix by metis
    then show ?thesis by (auto simp add: prefix_def)
  qed
  moreover have "prs (strip s) \<noteq> None" if "param_rows ws = Inr prs" for prs
    using that p scan_param_rows_dom [of ws "[Suc r0..<Suc ?n]" True "[strip s \<mapsto> r0]" prs "strip s"]
    by simp
  ultimately show ?thesis by blast
qed

text \<open>
  C6, at a concrete sheet: \<open>label_row_master\<close> with \<open>r0 = 1\<close>.
\<close>

theorem opening_row_is_parameter_row_witness:
  "extract_syscad_params label_row_master = Inr [(py ''Flow Rate''), (py ''Head'')] \<and>
   hd [(py ''Flow Rate''), (py ''Head'')] = strip (py ''Flow Rate'') \<and>
   \<not> isl (param_rows label_row_master) \<and>
   projr (param_rows label_row_master) (strip (py ''Flow Rate'')) \<noteq> None"
proof -
  have a1: "1 \<le> max_row label_row_master" by code_simp
  have a3: "label_has (py ''SysCAD Inputs'') (cval (cells label_row_master (1, 1)))" by code_simp
  have a4: "\<forall>r. 1 \<le> r \<and> r < 1 \<longrightarrow> \<not> label_has (py ''SysCAD Inputs'') (cval (cells label_row_master (r, 1)))"
    by simp
  have a5: "\<not> label_has (py ''Engineering Inputs'') (cval (cells label_row_master (1, 1)))" by code_simp
  have a6: "cval (cells label_row_master (1, 2)) = PStr (py ''Flow Rate'')" by code_simp
  have e: "extract_syscad_params label_row_master = Inr [(py ''Flow Rate''), (py ''Head'')]" by code_simp
  have ok: "\<not> isl (param_rows label_row_master)" by code_simp
  then have p: "param_rows label_row_master = Inr (projr (param_rows label_row_master))" by simp
  have ne: "py ''Flow Rate'' \<noteq> []" by code_simp
  have one: "(1::nat) \<le> 1" by simp
  show ?thesis
    using opening_row_is_parameter_row [of 1 label_row_master "(py ''Flow Rate'')", OF one a1 a3 a4 a5 a6 ne] e ok p
    by fastforce
qed

text \<open>
  C7, as stated, fails. The unit update sits inside the loop over the unit-tag columns,
  after the \<open>continue\<close> that skips unmatched columns. \<open>untagged_stream\<close> has no unit
  tag in its header row, so no column is matched and nothing is written: the pair
  (\<open>Flow Rate\<close>, \<open>FT-101\<close>) survives both lookups, the streamtable unit \<open>m3/h\<close>
  differs from the master unit \<open>kg/h\<close>, and the master unit cell still reads \<open>kg/h\<close>
  after the pass.
\<close>

theorem unit_kept_without_stream_tags:
  "stream_unit_tags untagged_stream = [] \<and>
   \<not> isl (stream_tag_to_row untagged_stream) \<and>
   projr (stream_tag_to_row untagged_stream) (py ''FT-101'') = Some 3 \<and>
   \<not> isl (param_rows ex_master) \<and>
   projr (param_rows ex_master) (py ''Flow Rate'') = Some 6 \<and>
   cval (cells untagged_stream (3, 2)) = PStr (py ''m3/h'') \<and>
   cval (cells ex_master (6, 3)) = PStr (py ''kg/h'') \<and>
   \<not> isl (populate_sheet round_hundredths ex_master untagged_stream ex_mapping) \<and>
   cval (cells (projr (populate_sheet round_hundredths ex_master untagged_stream ex_mapping)) (6, 3)) = PStr (py ''kg/h'')"
  by code_simp

text \<open>
  C7, amended. For a mapping pair that survives both lookups (the keys of the mapping
  being distinct, as in a dictionary), the master unit cell after the pass holds the
  streamtable unit exactly when the streamtable header row has at least one unit tag,
  the streamtable unit is truthy and it differs from the master unit; otherwise the
  cell keeps its value. One streamtable unit tag is enough: the header loop copies it
  into the master header, which makes its column a matched one whatever tags the
  master had.
\<close>

theorem unit_reconciled_in_matched_columns:
  fixes master_ws stream_ws :: sheet
  defines "m1 \<equiv> write_unit_tags 0 (stream_unit_tags stream_ws) master_ws"
  assumes trs: "stream_tag_to_row stream_ws = Inr trs"
    and prs: "param_rows m1 = Inr prs"
    and dist: "distinct (map fst param_mapping)"
    and pair: "(master_param, stream_tag) \<in> set param_mapping"
    and p: "prs master_param = Some m_row" and t: "trs stream_tag = Some s_row"
  shows "\<exists>result. populate_sheet round2 master_ws stream_ws param_mapping = Inr result \<and>
           (let stream_unit = cval (cells stream_ws (s_row, 2));
                master_unit = cval (cells master_ws (m_row, 3))
            in cval (cells result (m_row, 3)) =
                 (if stream_unit_tags stream_ws \<noteq> [] \<and> truthy stream_unit \<and>
                     \<not> py_eq master_unit stream_unit
                  then stream_unit else master_unit))"
proof -
  have ne: "param_mapping \<noteq> []" using pair by auto
  note res = populate_sheet_Inr [OF trs prs [unfolded m1_def] ne, of round2]
  have header: "cells m1 (m_row, 3) = cells master_ws (m_row, 3)"
    by (simp add: m1_def cells_write_unit_tags)
  have "cval (cells (populate_values round2 stream_ws prs trs (stream_unit_tags stream_ws) param_mapping 0
                  (master_unit_tags m1) m1) (m_row, 3)) =
           (if \<exists>unit_tag \<in> set (master_unit_tags m1). py_in unit_tag (stream_unit_tags stream_ws)
            then unit_update (cval (cells stream_ws (s_row, 2))) (cval (cells m1 (m_row, 3)))
            else cval (cells m1 (m_row, 3)))"
    by (rule cells_populate_values_unit [where p = master_param and t = stream_tag and prs = prs and trs = trs,
          OF param_rows_inj [OF prs] dist pair p t])
  then show ?thesis
    unfolding res [folded m1_def] header
    using matched_column_exists [of stream_ws master_ws]
    by (auto simp add: m1_def Let_def unit_update_def)
qed

text \<open>
  C7, at a concrete sheet: \<open>kg/h\<close> in \<open>ex_master\<close> becomes \<open>m3/h\<close>.
\<close>

theorem unit_reconciled_in_matched_columns_witness:
  "stream_unit_tags ex_stream \<noteq> [] \<and>
   cval (cells ex_master (6, 3)) = PStr (py ''kg/h'') \<and>
   (\<exists>result. populate_sheet round_hundredths ex_master ex_stream ex_mapping = Inr result \<and>
      cval (cells result (6, 3)) = PStr (py ''m3/h''))"
proof -
  let ?m1 = "write_unit_tags 0 (stream_unit_tags ex_stream) ex_master"
  have trs: "stream_tag_to_row ex_stream = Inr (projr (stream_tag_to_row ex_stream))"
    using ex_stream_rows_ok by simp
  have prs: "param_rows ?m1 = Inr (projr (param_rows ?m1))"
    using ex_master_rows_ok by simp
  have dist: "distinct (map fst ex_mapping)" by code_simp
  have pair: "((py ''Flow Rate''), (py ''FT-101'')) \<in> set ex_mapping" by code_simp
  have tags: "stream_unit_tags ex_stream \<noteq> []" by code_simp
  have su: "cval (cells ex_stream (3, 2)) = PStr (py ''m3/h'')" by code_simp
  have mu: "cval (cells ex_master (6, 3)) = PStr (py ''kg/h'')" by code_simp
  have ne: "\<not> py_eq (PStr (py ''kg/h'')) (PStr (py ''m3/h''))" by code_simp
  have nonempty: "py ''m3/h'' \<noteq> []" by code_simp
  show ?thesis
    using unit_reconciled_in_matched_columns [OF trs prs dist pair ex_flow_row ex_tag_row, of round_hundredths] tags ne
    by (simp add: su mu nonempty)
qed

text \<open>
  C8. The value loop takes as source the streamtable cell in column 4 plus the position
  of the unit tag in the streamtable tag list, which is the column of the tag only
  while no header cell before it is empty. In \<open>gap_stream\<close> tag \<open>B\<close> stands in column 6
  behind an empty header cell. The triple of the master column headed \<open>B\<close> (column 5
  after the header loop), parameter \<open>Flow Rate\<close> and tag \<open>FT-101\<close> survives: the tag is
  matched and both lookups have their entry. The source cell of \<open>B\<close> in the tag's row
  holds the integer 3, yet after the pass the master cell still holds 7: the loop read
  the empty cell of column 5 instead.
\<close>

theorem gap_source_value_lost:
  "master_unit_tags (write_unit_tags 0 (stream_unit_tags gap_stream) ex_master) ! 1 = PStr (py ''B'') \<and>
   py_in (PStr (py ''B'')) (stream_unit_tags gap_stream) \<and>
   cval (cells gap_stream (1, 6)) = PStr (py ''B'') \<and>
   \<not> isl (stream_tag_to_row gap_stream) \<and>
   projr (stream_tag_to_row gap_stream) (py ''FT-101'') = Some 3 \<and>
   \<not> isl (param_rows (write_unit_tags 0 (stream_unit_tags gap_stream) ex_master)) \<and>
   projr (param_rows (write_unit_tags 0 (stream_unit_tags gap_stream) ex_master)) (py ''Flow Rate'') = Some 6 \<and>
   cval (cells gap_stream (3, 6)) = PInt 3 \<and>
   \<not> isl (populate_sheet round_hundredths ex_master gap_stream ex_mapping) \<and>
   cval (cells (projr (populate_sheet round_hundredths ex_master gap_stream ex_mapping)) (3, 5)) = PStr (py ''B'') \<and>
   cval (cells (projr (populate_sheet round_hundredths ex_master gap_stream ex_mapping)) (6, 5)) = PInt 7"
  by code_simp

text \<open>
  C9. Once the two lookups are built, the pass returns a sheet, and it is the sheet the
  value loop produces from the mapping without the pairs whose parameter is not in the
  parameter lookup or whose tag is not in the tag lookup: such a pair writes nothing,
  raises nothing, and the other pairs are processed as if it were not there. A single
  step of the inner loop on such a pair returns the master sheet as it is.
\<close>

theorem stale_pairs_skipped:
  assumes "stream_tag_to_row stream_ws = Inr trs"
    and "param_rows (write_unit_tags 0 (stream_unit_tags stream_ws) master_ws) = Inr prs"
    and "param_mapping \<noteq> []"
  shows "populate_sheet round2 master_ws stream_ws param_mapping =
           Inr (populate_values round2 stream_ws prs trs (stream_unit_tags stream_ws)
                  (filter (\<lambda>pair. prs (fst pair) \<noteq> None \<and> trs (snd pair) \<noteq> None) param_mapping) 0
                  (master_unit_tags (write_unit_tags 0 (stream_unit_tags stream_ws) master_ws))
                  (write_unit_tags 0 (stream_unit_tags stream_ws) master_ws)) \<and>
         (\<forall>pair col_off stream_col ws.
            prs (fst pair) = None \<or> trs (snd pair) = None \<longrightarrow>
            populate_pair round2 stream_ws prs trs col_off stream_col ws pair = ws)"
  using populate_sheet_Inr [OF assms] populate_pair_skip
  by (simp only: populate_values_filter) blast

text \<open>
  C9, at a concrete sheet: the pair (\<open>Head\<close>, \<open>FT-999\<close>) names a parameter that
  \<open>ex_master\<close> does not have; the pass on both pairs is the pass on the first alone.
\<close>

theorem stale_pairs_skipped_witness:
  "projr (param_rows (write_unit_tags 0 (stream_unit_tags ex_stream) ex_master)) (py ''Head'') = None \<and>
   populate_sheet round_hundredths ex_master ex_stream [((py ''Flow Rate''), (py ''FT-101'')), ((py ''Head''), (py ''FT-999''))] =
     Inr (populate_values round_hundredths ex_stream
            (projr (param_rows (write_unit_tags 0 (stream_unit_tags ex_stream) ex_master)))
            (projr (stream_tag_to_row ex_stream)) (stream_unit_tags ex_stream)
            [((py ''Flow Rate''), (py ''FT-101''))] 0
            (master_unit_tags (write_unit_tags 0 (stream_unit_tags ex_stream) ex_master))
            (write_unit_tags 0 (stream_unit_tags ex_stream) ex_master))"
proof -
  let ?m1 = "write_unit_tags 0 (stream_unit_tags ex_stream) ex_master"
  have trs: "stream_tag_to_row ex_stream = Inr (projr (stream_tag_to_row ex_stream))"
    using ex_stream_rows_ok by simp
  have prs: "param_rows ?m1 = Inr (projr (param_rows ?m1))"
    using ex_master_rows_ok by simp
  have ne: "[((py ''Flow Rate''), (py ''FT-101'')), ((py ''Head''), (py ''FT-999''))] \<noteq> []" by simp
  show ?thesis
    using stale_pairs_skipped [OF trs prs ne, of round_hundredths] ex_head_row ex_flow_row ex_tag_row
    by simp
qed

text \<open>
  C10. Run \<open>populate_syscad_inputs\<close> on a master workbook, a streamtable workbook and
  a mapping whose inner dictionaries have distinct keys, the iteration of a set visiting
  each element once. If the run returns, a second run on its output with the same
  streamtable and mapping returns too, with the same list of missing sheets, and every
  cell of column 3 of every sheet has the value it had after the first run.
\<close>

theorem unit_overwrite_idempotent:
  assumes keys: "\<forall>eq_type pm. mapping_dict eq_type = Some pm \<longrightarrow> distinct (map fst pm)"
    and order: "\<forall>names. distinct names \<longrightarrow> distinct (set_order names)"
    and first: "populate_syscad_inputs round2 set_order master_wb stream_wb mapping_dict = Inr (once, missing)"
  shows "\<exists>twice. populate_syscad_inputs round2 set_order once stream_wb mapping_dict = Inr (twice, missing) \<and>
           (\<forall>eq_type r. cval (cells (sheet_of twice eq_type) (r, 3)) =
                         cval (cells (sheet_of once eq_type) (r, 3)))"
proof -
  let ?names = "set_order (common_sheets master_wb stream_wb)"
  let ?pm = "\<lambda>n. case mapping_dict n of None \<Rightarrow> [] | Some pm \<Rightarrow> pm"
  have d: "distinct ?names"
    using order by (simp add: common_sheets_def)
  have pass1: "populate_sheets round2 stream_wb mapping_dict ?names master_wb = Inr once"
    and missing: "missing = missing_sheets set_order master_wb stream_wb"
    using first by (auto simp add: populate_syscad_inputs_def Let_def split: sum.splits)
  note r1 = populate_sheets_result [OF d pass1]
  have names: "sheetnames once = sheetnames master_wb" using r1 by simp
  have common: "common_sheets once stream_wb = common_sheets master_wb stream_wb"
    and miss: "missing_sheets set_order once stream_wb = missing"
    using names missing by (simp_all add: common_sheets_def missing_sheets_def master_minus_stream_def)
  have keys': "distinct (map fst (?pm n))" for n
    using keys by (cases "mapping_dict n") auto
  have again: "\<exists>tw. populate_sheet round2 (sheet_of once n) (sheet_of stream_wb n) (?pm n) = Inr tw \<and>
      (\<forall>r. cval (cells tw (r, 3)) = cval (cells (sheet_of once n) (r, 3)))" if "n \<in> set ?names" for n
  proof -
    have "populate_sheet round2 (sheet_of master_wb n) (sheet_of stream_wb n) (?pm n) = Inr (sheet_of once n)"
      using r1 that by blast
    then show ?thesis by (rule populate_sheet_twice [OF keys'])
  qed
  then have "\<forall>n \<in> set ?names. \<exists>ws. populate_sheet round2 (sheet_of once n) (sheet_of stream_wb n) (?pm n) = Inr ws"
    by blast
  then obtain twice where pass2: "populate_sheets round2 stream_wb mapping_dict ?names once = Inr twice"
    using populate_sheets_total [OF d] by blast
  note r2 = populate_sheets_result [OF d pass2]
  have "cval (cells (sheet_of twice n) (r, 3)) = cval (cells (sheet_of once n) (r, 3))" for n r
  proof (cases "n \<in> set ?names")
    case True
    then have "populate_sheet round2 (sheet_of once n) (sheet_of stream_wb n) (?pm n) = Inr (sheet_of twice n)"
      using r2 by blast
    then show ?thesis using again [OF True] by auto
  next
    case False
    then show ?thesis using r2 by simp
  qed
  moreover have "populate_syscad_inputs round2 set_order once stream_wb mapping_dict = Inr (twice, missing)"
    using pass2 by (simp add: populate_syscad_inputs_def common miss)
  ultimately show ?thesis by blast
qed

text \<open>
  C10, at a concrete workbook: \<open>ex_master_wb\<close> against \<open>ex_stream_wb\<close>.
\<close>

theorem unit_overwrite_idempotent_witness:
  "\<not> isl (populate_syscad_inputs round_hundredths id ex_master_wb ex_stream_wb ex_mapping_dict) \<and>
   (\<exists>twice.
      populate_syscad_inputs round_hundredths id
        (fst (projr (populate_syscad_inputs round_hundredths id ex_master_wb ex_stream_wb ex_mapping_dict)))
        ex_stream_wb ex_mapping_dict =
      Inr (twice, snd (projr (populate_syscad_inputs round_hundredths id ex_master_wb ex_stream_wb ex_mapping_dict))) \<and>
      (\<forall>eq_type r. cval (cells (sheet_of twice eq_type) (r, 3)) =
          cval (cells (sheet_of
             (fst (projr (populate_syscad_inputs round_hundredths id ex_master_wb ex_stream_wb ex_mapping_dict)))
             eq_type) (r, 3))))"
proof -
  let ?R = "populate_syscad_inputs round_hundredths id ex_master_wb ex_stream_wb ex_mapping_dict"
  have ok: "\<not> isl ?R" by code_simp
  then have first: "?R = Inr (fst (projr ?R), snd (projr ?R))" by simp
  have dist: "distinct (map fst ex_mapping)" by code_simp
  have keys: "\<forall>eq_type pm. ex_mapping_dict eq_type = Some pm \<longrightarrow> distinct (map fst pm)"
    using dist by (auto simp add: ex_mapping_dict_def split: if_splits)
  have order: "\<forall>names :: pystr list. distinct names \<longrightarrow> distinct (id names)" by simp
  show ?thesis
    using unit_overwrite_idempotent [OF keys order first] ok by blast
qed

end
